theory Spec2Isabelle
  imports Complex_Main
begin

section \<open>The NLE play tool (nle/scripts/play.py)\<close>

text \<open>
  The script drives a NetHack environment from the keyboard or from a random policy.
  Its two functions with control flow are \<open>get_action\<close> (lines 42-70) and \<open>play\<close>
  (lines 73-178); \<open>no_echo\<close> (lines 32-39) is the scoped raw-terminal acquisition.

  Everything the script takes from outside is a parameter of the model: the command line
  (\<open>FLAGS\<close>), the constants of \<open>nle.nethack\<close>, the environment object, the clock
  \<open>timeit.default_timer\<close>, the random generator and the bytes waiting on file descriptor 0.
  Floats are modelled as exact reals.
\<close>

subsection \<open>Command line\<close>

datatype control_mode = Human | Random

record flags =
  mode :: control_mode
  raw_env :: bool
  ngames :: int
  max_steps :: int
  no_render :: bool
  print_frames_separately :: bool
  wizard :: bool

text \<open>
  \<open>mode\<close> is \<open>FLAGS.mode\<close>, restricted by argparse to the two choices; \<open>raw_env\<close> is
  \<open>is_raw_env = FLAGS.env == "raw"\<close> (line 74).
\<close>

subsection \<open>The outside world\<close>

datatype error = ZeroDivisionError | TypeError | EnvError

type_synonym termios = "nat list"

record 'e world =
  MORE :: nat
  CompassDirection :: "nat list"
  CompassDirectionLonger :: "nat list"
  C_c :: nat
  setraw :: "termios \<Rightarrow> termios"
  now :: "nat \<Rightarrow> real"
  rand :: "nat \<Rightarrow> nat"
  env_actions :: "nat list"
  action_space_sample :: "nat \<Rightarrow> nat"
  env_reset :: "'e \<Rightarrow> 'e"
  wizard_genesis :: "'e \<Rightarrow> 'e"
  step_raw :: "'e \<Rightarrow> nat \<Rightarrow> error + 'e \<times> bool"
  step_gym :: "'e \<Rightarrow> nat \<Rightarrow> error + 'e \<times> real \<times> bool"

text \<open>
  \<^item> \<open>MORE\<close>, \<open>CompassDirection\<close>, \<open>CompassDirectionLonger\<close>: the key codes of
    \<open>nethack.MiscAction.MORE\<close> and of the two compass enumerations;
    \<open>C_c\<close> is \<open>nethack.C("c")\<close>. The module \<open>nle.nethack\<close> is not part of the script.
  \<^item> \<open>setraw\<close>: what \<open>tty.setraw(0)\<close> makes of the terminal attributes.
  \<^item> \<open>now k\<close>: the value of the \<open>k\<close>-th call of \<open>timeit.default_timer()\<close>;
    \<open>rand k\<close>: the \<open>k\<close>-th number drawn by the random generator behind \<open>random.choice\<close>;
    \<open>action_space_sample k\<close>: what \<open>env.action_space.sample()\<close> returns at the \<open>k\<close>-th draw.
  \<^item> \<open>env_actions\<close> is \<open>env._actions\<close> (as key codes); \<open>env_reset\<close>, \<open>wizard_genesis\<close>,
    \<open>step_raw\<close> (\<open>nethack.Nethack.step\<close>, returning observation and done) and \<open>step_gym\<close>
    (the gym \<open>step\<close>, returning observation, reward, done and info) act on the
    environment's state \<open>'e\<close>, which also stands for the observation; a step may raise.
\<close>

record 'e sys =
  env :: 'e
  tty :: termios
  keys :: "nat list"
  draws :: nat
  ticks :: nat

text \<open>
  The mutable part of the world: the environment, the attributes of the terminal on file
  descriptor 0, the bytes still to be read from it, and how many random numbers and clock
  values have been consumed.
\<close>

datatype event =
    EnvReset
  | WizardGenesis
  | Frame "nat option"
  | PrintAction nat
  | ExitMsg nat
  | RetryMsg nat
  | CursorUp2
  | Step nat "real option" bool
  | FinalReward real
  | EndStatus
  | MeanReward real
  | EpisodeLine nat nat real
  | EnvClose
  | Summary nat real real

text \<open>
  What the script does to the outside, in order: calls of \<open>env.reset\<close> (lines 95, 173),
  \<open>env.wizard_genesis\<close> (110) and \<open>env.close\<close> (174); the display block of lines 113-132
  (\<open>Frame\<close>, with the previous action); \<open>print(action)\<close> (48); the exit message (54);
  the retry prompt with the rejected code (63-66) and the cursor movement after it (68);
  a completed \<open>env.step(action)\<close> with the reward (gym variant only) and done flag it
  returned (140, 142); the prints of lines 156-158 and 161; the summary of lines 175-178.
\<close>

subsection \<open>The action table (lines 20-24)\<close>

definition ACTIONS :: "'e world \<Rightarrow> nat list" where
  "ACTIONS W = [MORE W] @ CompassDirection W @ CompassDirectionLonger W"

subsection \<open>no_echo (lines 32-39)\<close>

text \<open>
  \<open>tt = tcgetattr(0); try: setraw(0); yield; finally: tcsetattr(0, TCSAFLUSH, tt)\<close>.
  The body of the \<open>with\<close> statement is a state transformer with a result; an exception
  raised in it is a result \<open>Inl e\<close>, and the \<open>finally\<close> clause runs for every result.
\<close>

definition no_echo :: "'e world \<Rightarrow> ('e sys \<Rightarrow> 'r \<times> 'e sys) \<Rightarrow> 'e sys \<Rightarrow> 'r \<times> 'e sys" where
  "no_echo W body s =
     (let tt = tty s;
          (r, s') = body (s\<lparr>tty := setraw W tt\<rparr>)
      in (r, s'\<lparr>tty := tt\<rparr>))"

text \<open>
  \<open>ord(os.read(0, 1))\<close>: at end of input \<open>os.read\<close> returns the empty bytes object and
  \<open>ord\<close> raises TypeError.
\<close>

definition os_read_ord :: "'e sys \<Rightarrow> (error + nat) \<times> 'e sys" where
  "os_read_ord s =
     (case keys s of
        [] \<Rightarrow> (Inl TypeError, s)
      | k # ks \<Rightarrow> (Inr k, s\<lparr>keys := ks\<rparr>))"

subsection \<open>get_action (lines 42-70)\<close>

text \<open>\<open>xs.index(x)\<close>: the first position of \<open>x\<close>, or ValueError (here \<open>None\<close>).\<close>

fun index_of :: "nat list \<Rightarrow> nat \<Rightarrow> nat option" where
  "index_of [] x = None"
| "index_of (y # ys) x =
     (if y = x then Some 0 else map_option Suc (index_of ys x))"

definition retry :: "flags \<Rightarrow> nat \<Rightarrow> event list" where
  "retry F ch = RetryMsg ch # (if print_frames_separately F then [] else [CursorUp2])"

text \<open>
  The \<open>while True\<close> loop of human mode (lines 50-69). The result is the exception raised,
  or the action (\<open>None\<close> for the exit code), with the new state and the output.
\<close>

function get_human ::
  "'e world \<Rightarrow> flags \<Rightarrow> 'e sys \<Rightarrow> (error + nat option) \<times> 'e sys \<times> event list" where
  "get_human W F s =
     (case no_echo W os_read_ord s of
        (Inl e, s1) \<Rightarrow> (Inl e, s1, [])
      | (Inr ch, s1) \<Rightarrow>
          if ch = C_c W then (Inr None, s1, [ExitMsg ch])
          else if raw_env F then (Inr (Some ch), s1, [])
          else (case index_of (env_actions W) ch of
                  Some i \<Rightarrow> (Inr (Some i), s1, [])
                | None \<Rightarrow>
                    (let (r, s2, evs) = get_human W F s1
                     in (r, s2, retry F ch @ evs))))"
  by pat_completeness auto
termination
proof (relation "measure (\<lambda>(W, F, s). length (keys s))")
  show "wf (measure (\<lambda>(W, F, s). length (keys s)))" by simp
next
  fix W :: "'e world" and F :: flags and s :: "'e sys" and x y ch
  assume "(x, y) = no_echo W os_read_ord s" and "x = Inr ch"
  then show "((W, F, y), (W, F, s)) \<in> measure (\<lambda>(W, F, s). length (keys s))"
    by (cases "keys s") (auto simp: no_echo_def os_read_ord_def Let_def)
qed

definition get_action ::
  "'e world \<Rightarrow> flags \<Rightarrow> 'e sys \<Rightarrow> (error + nat option) \<times> 'e sys \<times> event list" where
  "get_action W F s =
     (case mode F of
        Random \<Rightarrow>
          if \<not> raw_env F
          then (Inr (Some (action_space_sample W (draws s))), s\<lparr>draws := Suc (draws s)\<rparr>, [])
          else (let action = ACTIONS W ! (rand W (draws s) mod length (ACTIONS W))
                in (Inr (Some action), s\<lparr>draws := Suc (draws s)\<rparr>, [PrintAction action]))
      | Human \<Rightarrow> get_human W F s)"

subsection \<open>play (lines 73-178)\<close>

text \<open>The local variables of \<open>play\<close> (lines 96-107); \<open>done_flag\<close> is \<open>done\<close>.\<close>

record locals =
  done_flag :: bool
  steps :: nat
  episodes :: nat
  reward :: real
  action :: "nat option"
  mean_sps :: real
  mean_reward :: real
  total_start_time :: real
  start_time :: real

datatype ctl = Continue | Break | Raise error

datatype outcome = Finished | Raised error | Running

text \<open>Python's \<open>/\<close> on floats raises ZeroDivisionError when the divisor is zero.\<close>

definition truediv :: "real \<Rightarrow> real \<Rightarrow> error + real" where
  "truediv x y = (if y = 0 then Inl ZeroDivisionError else Inr (x / y))"

text \<open>The display block, lines 113-132.\<close>

definition render :: "flags \<Rightarrow> locals \<Rightarrow> event list" where
  "render F L = (if \<not> no_render F then [Frame (action L)] else [])"

text \<open>Lines 139-142: the call of \<open>env.step\<close> and the assignment of what it returns.\<close>

definition env_step ::
  "'e world \<Rightarrow> flags \<Rightarrow> locals \<Rightarrow> 'e sys \<Rightarrow> nat \<Rightarrow> error + locals \<times> 'e sys \<times> event list" where
  "env_step W F L s a =
     (if raw_env F
      then (case step_raw W (env s) a of
              Inl e \<Rightarrow> Inl e
            | Inr (obs, d) \<Rightarrow> Inr (L\<lparr>done_flag := d\<rparr>, s\<lparr>env := obs\<rparr>, [Step a None d]))
      else (case step_gym W (env s) a of
              Inl e \<Rightarrow> Inl e
            | Inr (obs, r, d) \<Rightarrow>
                Inr (L\<lparr>reward := r, done_flag := d\<rparr>, s\<lparr>env := obs\<rparr>, [Step a (Some r) d])))"

text \<open>Lines 145-148: the step cap of the raw variant, the running mean of the gym variant.\<close>

definition after_step :: "flags \<Rightarrow> locals \<Rightarrow> error + locals" where
  "after_step F L =
     (if raw_env F
      then Inr (L\<lparr>done_flag := (done_flag L \<or> max_steps F \<le> int (steps L))\<rparr>)
      else (case truediv (reward L - mean_reward L) (real (steps L)) of
              Inl e \<Rightarrow> Inl e
            | Inr q \<Rightarrow> Inr (L\<lparr>mean_reward := mean_reward L + q\<rparr>)))"

text \<open>Lines 153-173: the end of an episode.\<close>

definition episode_end ::
  "'e world \<Rightarrow> flags \<Rightarrow> locals \<Rightarrow> 'e sys \<Rightarrow> ctl \<times> locals \<times> 'e sys \<times> event list" where
  "episode_end W F L s =
     (let time_delta = now W (ticks s) - start_time L;
          s1 = s\<lparr>ticks := Suc (ticks s)\<rparr>;
          evs1 = (if \<not> raw_env F
                  then [FinalReward (reward L), EndStatus, MeanReward (mean_reward L)]
                  else [])
      in case truediv (real (steps L)) time_delta of
           Inl e \<Rightarrow> (Raise e, L, s1, evs1)
         | Inr sps \<Rightarrow>
             (let evs2 = evs1 @ [EpisodeLine (episodes L) (steps L) sps];
                  L1 = L\<lparr>episodes := episodes L + 1\<rparr>
              in case truediv (sps - mean_sps L1) (real (episodes L1)) of
                   Inl e \<Rightarrow> (Raise e, L1, s1, evs2)
                 | Inr q \<Rightarrow>
                     (let L2 = L1\<lparr>mean_sps := mean_sps L1 + q\<rparr>;
                          L3 = L2\<lparr>start_time := now W (ticks s1)\<rparr>;
                          s2 = s1\<lparr>ticks := Suc (ticks s1)\<rparr>;
                          L4 = L3\<lparr>steps := 0, mean_reward := 0\<rparr>
                      in if int (episodes L4) = ngames F
                         then (Break, L4, s2, evs2)
                         else (Continue, L4, s2\<lparr>env := env_reset W (env s2)\<rparr>,
                               evs2 @ [EnvReset]))))"

text \<open>
  Lines 136-173: what the loop body does with the result \<open>a\<close> of \<open>get_action\<close>, already
  assigned to \<open>action\<close>.
\<close>

definition act ::
  "'e world \<Rightarrow> flags \<Rightarrow> locals \<Rightarrow> 'e sys \<Rightarrow> nat option \<Rightarrow>
   ctl \<times> locals \<times> 'e sys \<times> event list" where
  "act W F L1 s1 a =
     (case a of
        None \<Rightarrow> (Break, L1, s1, [])
      | Some a' \<Rightarrow>
          (case env_step W F L1 s1 a' of
             Inl e \<Rightarrow> (Raise e, L1, s1, [])
           | Inr (L2, s2, evs2) \<Rightarrow>
               (let L3 = L2\<lparr>steps := steps L2 + 1\<rparr>
                in case after_step F L3 of
                     Inl e \<Rightarrow> (Raise e, L3, s2, evs2)
                   | Inr L4 \<Rightarrow>
                       if \<not> done_flag L4 then (Continue, L4, s2, evs2)
                       else (case episode_end W F L4 s2 of
                               (c, L5, s3, evs3) \<Rightarrow> (c, L5, s3, evs2 @ evs3)))))"

text \<open>Lines 134-173: one pass through the body of \<open>while True\<close>, after the display.\<close>

definition turn ::
  "'e world \<Rightarrow> flags \<Rightarrow> locals \<Rightarrow> 'e sys \<Rightarrow> ctl \<times> locals \<times> 'e sys \<times> event list" where
  "turn W F L s =
     (case get_action W F s of
        (Inl e, s1, evs) \<Rightarrow> (Raise e, L, s1, evs)
      | (Inr a, s1, evs) \<Rightarrow>
          (case act W F (L\<lparr>action := a\<rparr>) s1 a of
             (c, L', s', evs') \<Rightarrow> (c, L', s', evs @ evs')))"

text \<open>
  The \<open>while True\<close> loop (lines 112-173) with fuel: at most \<open>n\<close> passes through the body.
  The result \<open>Continue\<close> says that the loop is still running when the fuel is used up.
\<close>

fun loop ::
  "nat \<Rightarrow> 'e world \<Rightarrow> flags \<Rightarrow> locals \<Rightarrow> 'e sys \<Rightarrow> ctl \<times> locals \<times> 'e sys \<times> event list" where
  "loop 0 W F L s = (Continue, L, s, [])"
| "loop (Suc n) W F L s =
     (case turn W F L s of
        (c, L1, s1, evs) \<Rightarrow>
          (case c of
             Continue \<Rightarrow>
               (case loop n W F L1 s1 of
                  (c', L2, s2, evs') \<Rightarrow> (c', L2, s2, render F L @ evs @ evs'))
           | Break \<Rightarrow> (Break, L1, s1, render F L @ evs)
           | Raise e \<Rightarrow> (Raise e, L1, s1, render F L @ evs)))"

text \<open>
  \<open>play\<close> from line 95 on; the state \<open>s0\<close> holds the environment made in lines 76-93.
\<close>

definition init_locals :: "real \<Rightarrow> locals" where
  "init_locals t =
     \<lparr>done_flag = False, steps = 0, episodes = 0, reward = 0, action = None,
      mean_sps = 0, mean_reward = 0, total_start_time = t, start_time = t\<rparr>"

text \<open>Lines 95-110: the first reset, the clock, the wizard's red dragon.\<close>

definition start :: "'e world \<Rightarrow> flags \<Rightarrow> 'e sys \<Rightarrow> locals \<times> 'e sys \<times> event list" where
  "start W F s0 =
     (let s1 = s0\<lparr>env := env_reset W (env s0)\<rparr>;
          L0 = init_locals (now W (ticks s1));
          s2 = s1\<lparr>ticks := Suc (ticks s1)\<rparr>
      in if wizard F
         then (L0, s2\<lparr>env := wizard_genesis W (env s2)\<rparr>, [EnvReset, WizardGenesis])
         else (L0, s2, [EnvReset]))"

text \<open>Lines 174-178: closing the environment and the summary.\<close>

definition finish :: "'e world \<Rightarrow> locals \<Rightarrow> 'e sys \<Rightarrow> 'e sys \<times> event list" where
  "finish W L s =
     (s\<lparr>ticks := Suc (ticks s)\<rparr>,
      [EnvClose, Summary (episodes L) (now W (ticks s) - total_start_time L) (mean_sps L)])"

definition play ::
  "nat \<Rightarrow> 'e world \<Rightarrow> flags \<Rightarrow> 'e sys \<Rightarrow> outcome \<times> locals \<times> 'e sys \<times> event list" where
  "play fuel W F s0 =
     (case start W F s0 of
        (L0, s3, evs0) \<Rightarrow>
          (case loop fuel W F L0 s3 of
             (c, L, s, evs) \<Rightarrow>
               (case c of
                  Break \<Rightarrow>
                    (case finish W L s of
                       (s', evs') \<Rightarrow> (Finished, L, s', evs0 @ evs @ evs'))
                | Raise e \<Rightarrow> (Raised e, L, s, evs0 @ evs)
                | Continue \<Rightarrow> (Running, L, s, evs0 @ evs))))"


section \<open>Auxiliary definitions\<close>

text \<open>The events that \<open>get_action\<close> can emit: prints, and nothing else.\<close>

fun chatter :: "event \<Rightarrow> bool" where
  "chatter (PrintAction a) = True"
| "chatter (ExitMsg c) = True"
| "chatter (RetryMsg c) = True"
| "chatter CursorUp2 = True"
| "chatter _ = False"


text \<open>
  Two readings of the output: the calls of \<open>env.step\<close> that returned, with what they
  returned, and the episode lines printed (episode number, steps, steps per second).
\<close>

fun step_events :: "event list \<Rightarrow> (nat \<times> real option \<times> bool) list" where
  "step_events [] = []"
| "step_events (Step a r d # evs) = (a, r, d) # step_events evs"
| "step_events (_ # evs) = step_events evs"

fun episode_lines :: "event list \<Rightarrow> (nat \<times> nat \<times> real) list" where
  "episode_lines [] = []"
| "episode_lines (EpisodeLine n k x # evs) = (n, k, x) # episode_lines evs"
| "episode_lines (_ # evs) = episode_lines evs"

text \<open>
  The rewards that \<open>env.step\<close> has returned since the last episode line, that is in the
  current episode (\<open>acc\<close> holds those before the output read).
\<close>

fun episode_rewards :: "real list \<Rightarrow> event list \<Rightarrow> real list" where
  "episode_rewards acc [] = acc"
| "episode_rewards acc (Step a (Some r) d # evs) = episode_rewards (acc @ [r]) evs"
| "episode_rewards acc (EpisodeLine n k x # evs) = episode_rewards [] evs"
| "episode_rewards acc (_ # evs) = episode_rewards acc evs"

text \<open>
  Every mean reward printed (line 158) is the arithmetic mean of the rewards returned in
  its episode, of which there is at least one.
\<close>

fun mean_prints_exact :: "real list \<Rightarrow> event list \<Rightarrow> bool" where
  "mean_prints_exact acc [] = True"
| "mean_prints_exact acc (Step a (Some r) d # evs) = mean_prints_exact (acc @ [r]) evs"
| "mean_prints_exact acc (EpisodeLine n k x # evs) = mean_prints_exact [] evs"
| "mean_prints_exact acc (MeanReward m # evs) =
     (acc \<noteq> [] \<and> m = sum_list acc / real (length acc) \<and> mean_prints_exact acc evs)"
| "mean_prints_exact acc (_ # evs) = mean_prints_exact acc evs"

text \<open>The steps per second printed in the episode lines.\<close>

definition sps_values :: "event list \<Rightarrow> real list" where
  "sps_values tr = map (\<lambda>(n, k, x). x) (episode_lines tr)"

text \<open>
  The invariant of the loop, on the output so far and the local variables: in product
  form, to avoid dividing by a count that is zero.
\<close>

definition means_inv :: "flags \<Rightarrow> event list \<Rightarrow> locals \<Rightarrow> bool" where
  "means_inv F tr L \<longleftrightarrow>
     (\<not> raw_env F \<longrightarrow>
        length (episode_rewards [] tr) = steps L \<and>
        sum_list (episode_rewards [] tr) = real (steps L) * mean_reward L) \<and>
     mean_prints_exact [] tr \<and>
     length (sps_values tr) = episodes L \<and>
     sum_list (sps_values tr) = real (episodes L) * mean_sps L"

text \<open>
  The bytes that human mode turns into an action: not the exit code, and known to
  \<open>env._actions\<close> unless the environment is the raw one.
\<close>

definition accepted :: "'e world \<Rightarrow> flags \<Rightarrow> nat \<Rightarrow> bool" where
  "accepted W F k \<longleftrightarrow> k \<noteq> C_c W \<and> (raw_env F \<or> k \<in> set (env_actions W))"

subsection \<open>A scripted environment, for concrete runs\<close>

text \<open>
  The key codes are those of NLE: MORE is carriage return, the compass directions are
  \<open>k l j h u n b y\<close> and their capitals, the exit code is control-C. The environment's
  state counts the steps made so far; the gym variant answers its \<open>k\<close>-th step with the
  \<open>k\<close>-th pair (reward, done) of a script (done once the script is used up), the raw
  variant never signals done. The clock advances by \<open>dt\<close> at every reading.
\<close>

definition scripted :: "real \<Rightarrow> (real \<times> bool) list \<Rightarrow> nat world" where
  "scripted dt script =
     \<lparr>MORE = 13,
      CompassDirection = [107, 108, 106, 104, 117, 110, 98, 121],
      CompassDirectionLonger = [75, 76, 74, 72, 85, 78, 66, 89],
      C_c = 3,
      setraw = (\<lambda>tt. map (\<lambda>x. 0) tt),
      now = (\<lambda>k. real k * dt),
      rand = (\<lambda>k. 7 * k + 3),
      env_actions = [13, 107, 108, 106, 104],
      action_space_sample = (\<lambda>k. k mod 5),
      env_reset = (\<lambda>e. e),
      wizard_genesis = (\<lambda>e. e),
      step_raw = (\<lambda>e a. Inr (Suc e, False)),
      step_gym = (\<lambda>e a. if e < length script
                          then Inr (Suc e, fst (script ! e), snd (script ! e))
                          else Inr (Suc e, 0, True))\<rparr>"

definition flags0 :: flags where
  "flags0 =
     \<lparr>mode = Random, raw_env = False, ngames = 1, max_steps = 1000000, no_render = False,
      print_frames_separately = False, wizard = False\<rparr>"

definition sys0 :: "nat list \<Rightarrow> nat sys" where
  "sys0 ks = \<lparr>env = 0, tty = [1, 2, 3], keys = ks, draws = 0, ticks = 0\<rparr>"


section \<open>Basic facts\<close>

declare get_human.simps [simp del]

lemma read_key:
  "no_echo W os_read_ord s =
     (case keys s of [] \<Rightarrow> (Inl TypeError, s) | k # ks \<Rightarrow> (Inr k, s\<lparr>keys := ks\<rparr>))"
  by (cases "keys s") (simp_all add: no_echo_def os_read_ord_def)

lemma get_human_eof: "keys s = [] \<Longrightarrow> get_human W F s = (Inl TypeError, s, [])"
  by (subst get_human.simps) (simp add: read_key)

lemma get_human_Cons:
  "keys s = k # ks \<Longrightarrow>
   get_human W F s =
     (if k = C_c W then (Inr None, s\<lparr>keys := ks\<rparr>, [ExitMsg k])
      else if raw_env F then (Inr (Some k), s\<lparr>keys := ks\<rparr>, [])
      else (case index_of (env_actions W) k of
              Some i \<Rightarrow> (Inr (Some i), s\<lparr>keys := ks\<rparr>, [])
            | None \<Rightarrow>
                (case get_human W F (s\<lparr>keys := ks\<rparr>) of
                   (r, s2, evs) \<Rightarrow> (r, s2, retry F k @ evs))))"
  by (subst get_human.simps) (simp add: read_key split: option.split)

lemma index_of_None: "index_of xs x = None \<longleftrightarrow> x \<notin> set xs"
  by (induction xs) auto

lemma index_of_Some: "index_of xs x = Some i \<Longrightarrow> i < length xs \<and> xs ! i = x"
  by (induction xs arbitrary: i) (auto split: if_splits)

lemma get_human_frame:
  "get_human W F s = (r, s', evs) \<Longrightarrow>
   env s' = env s \<and> tty s' = tty s \<and> draws s' = draws s \<and> ticks s' = ticks s \<and>
   list_all chatter evs"
proof (induction W F s arbitrary: r s' evs rule: get_human.induct)
  case (1 W F s)
  show ?case
  proof (cases "keys s")
    case Nil
    with "1.prems" show ?thesis by (simp add: get_human_eof)
  next
    case (Cons k ks)
    show ?thesis
    proof (cases "k \<noteq> C_c W \<and> \<not> raw_env F \<and> index_of (env_actions W) k = None")
      case True
      then have rd: "no_echo W os_read_ord s = (Inr k, s\<lparr>keys := ks\<rparr>)"
        using Cons by (simp add: read_key)
      obtain r2 s2 evs2 where g: "get_human W F (s\<lparr>keys := ks\<rparr>) = (r2, s2, evs2)"
        by (cases "get_human W F (s\<lparr>keys := ks\<rparr>)") auto
      have ih: "env s2 = env (s\<lparr>keys := ks\<rparr>) \<and> tty s2 = tty (s\<lparr>keys := ks\<rparr>) \<and>
                draws s2 = draws (s\<lparr>keys := ks\<rparr>) \<and> ticks s2 = ticks (s\<lparr>keys := ks\<rparr>) \<and>
                list_all chatter evs2"
        using "1.IH" [OF rd [symmetric] refl _ _ _ g] True by simp
      from "1.prems" True Cons g have "r = r2" "s' = s2" "evs = retry F k @ evs2"
        by (simp_all add: get_human_Cons)
      with ih show ?thesis by (simp add: retry_def)
    next
      case False
      with "1.prems" Cons show ?thesis
        by (auto simp: get_human_Cons split: if_splits option.splits)
    qed
  qed
qed


lemma get_action_frame:
  "get_action W F s = (r, s', evs) \<Longrightarrow>
   env s' = env s \<and> tty s' = tty s \<and> ticks s' = ticks s \<and> list_all chatter evs"
  by (cases "mode F")
     (auto simp: get_action_def Let_def dest: get_human_frame split: if_splits)

lemma turnE:
  assumes "turn W F L s = (c, L', s', evs)"
  obtains
    (Input_raised) e where
      "get_action W F s = (Inl e, s', evs)" "c = Raise e" "L' = L"
  | (Exit) 
      "get_action W F s = (Inr None, s', evs)" "c = Break" "L' = L\<lparr>action := None\<rparr>"
  | (Step_raised) a e where
      "get_action W F s = (Inr (Some a), s', evs)"
      "env_step W F (L\<lparr>action := Some a\<rparr>) s' a = Inl e"
      "c = Raise e" "L' = L\<lparr>action := Some a\<rparr>"
  | (Mean_raised) a s1 evs1 L2 evs2 e where
      "get_action W F s = (Inr (Some a), s1, evs1)"
      "env_step W F (L\<lparr>action := Some a\<rparr>) s1 a = Inr (L2, s', evs2)"
      "after_step F (L2\<lparr>steps := steps L2 + 1\<rparr>) = Inl e"
      "c = Raise e" "L' = L2\<lparr>steps := steps L2 + 1\<rparr>" "evs = evs1 @ evs2"
  | (Continues) a s1 evs1 L2 evs2 where
      "get_action W F s = (Inr (Some a), s1, evs1)"
      "env_step W F (L\<lparr>action := Some a\<rparr>) s1 a = Inr (L2, s', evs2)"
      "after_step F (L2\<lparr>steps := steps L2 + 1\<rparr>) = Inr L'"
      "\<not> done_flag L'" "c = Continue" "evs = evs1 @ evs2"
  | (Ends) a s1 evs1 L2 s2 evs2 L4 evs3 where
      "get_action W F s = (Inr (Some a), s1, evs1)"
      "env_step W F (L\<lparr>action := Some a\<rparr>) s1 a = Inr (L2, s2, evs2)"
      "after_step F (L2\<lparr>steps := steps L2 + 1\<rparr>) = Inr L4"
      "done_flag L4" "episode_end W F L4 s2 = (c, L', s', evs3)"
      "evs = evs1 @ evs2 @ evs3"
proof -
  obtain r s1 evs1 where g: "get_action W F s = (r, s1, evs1)"
    by (cases "get_action W F s") auto
  show thesis
  proof (cases r)
    case (Inl e)
    with assms g show thesis by (intro that(1) [of e]) (simp_all add: turn_def act_def)
  next
    case (Inr ao)
    show thesis
    proof (cases ao)
      case None
      with assms g Inr show thesis by (intro that(2)) (simp_all add: turn_def act_def)
    next
      case (Some a)
      note ga = g [unfolded Inr Some]
      show thesis
      proof (cases "env_step W F (L\<lparr>action := Some a\<rparr>) s1 a")
        case (Inl e)
        with assms ga show thesis by (intro that(3) [of a e]) (simp_all add: turn_def act_def)
      next
        case es: (Inr t)
        obtain L2 s2 evs2 where t: "t = (L2, s2, evs2)" by (cases t) auto
        note es = es [unfolded t]
        show thesis
        proof (cases "after_step F (L2\<lparr>steps := steps L2 + 1\<rparr>)")
          case (Inl e)
          with assms ga es show thesis
            by (intro that(4) [of a s1 evs1 L2 evs2 e]) (simp_all add: turn_def act_def)
        next
          case as: (Inr L4)
          show thesis
          proof (cases "done_flag L4")
            case False
            with assms ga es as show thesis
              by (intro that(5) [of a s1 evs1 L2 evs2]) (simp_all add: turn_def act_def)
          next
            case True
            obtain c5 L5 s5 evs5 where ee: "episode_end W F L4 s2 = (c5, L5, s5, evs5)"
              by (cases "episode_end W F L4 s2") auto
            with assms ga es as True show thesis
              by (intro that(6) [of a s1 evs1 L2 s2 evs2 L4 evs5]) (simp_all add: turn_def act_def)
          qed
        qed
      qed
    qed
  qed
qed


lemma loop_invariant:
  assumes "loop n W F L s = (c, L', s', evs)" and "I tr L s"
    and "\<And>tr L s c L' s' evs.
           I tr L s \<Longrightarrow> turn W F L s = (c, L', s', evs) \<Longrightarrow> I (tr @ render F L @ evs) L' s'"
  shows "I (tr @ evs) L' s'"
  using assms(1,2)
proof (induction n arbitrary: tr L s c L' s' evs)
  case 0
  then show ?case by simp
next
  case (Suc n)
  obtain c1 L1 s1 evs1 where t: "turn W F L s = (c1, L1, s1, evs1)"
    by (cases "turn W F L s") auto
  have I1: "I (tr @ render F L @ evs1) L1 s1"
    using assms(3) [OF Suc.prems(2) t] .
  show ?case
  proof (cases c1)
    case Continue
    obtain c2 L2 s2 evs2 where l: "loop n W F L1 s1 = (c2, L2, s2, evs2)"
      by (cases "loop n W F L1 s1") auto
    from Suc.prems(1) t Continue l
    have "L' = L2" "s' = s2" "evs = render F L @ evs1 @ evs2" by simp_all
    with Suc.IH [OF l I1] show ?thesis by simp
  next
    case Break
    with Suc.prems(1) t I1 show ?thesis by auto
  next
    case (Raise e)
    with Suc.prems(1) t I1 show ?thesis by auto
  qed
qed

lemma env_step_tty: "env_step W F L s a = Inr (L2, s2, evs2) \<Longrightarrow> tty s2 = tty s"
  by (auto simp: env_step_def split: if_splits sum.splits)

lemma episode_end_tty: "episode_end W F L s = (c, L', s', evs) \<Longrightarrow> tty s' = tty s"
  by (auto simp: episode_end_def Let_def truediv_def split: if_splits)

lemma turn_tty: "turn W F L s = (c, L', s', evs) \<Longrightarrow> tty s' = tty s"
  by (erule turnE) (auto dest!: get_action_frame env_step_tty episode_end_tty)

lemma loop_tty: "loop n W F L s = (c, L', s', evs) \<Longrightarrow> tty s' = tty s"
  using loop_invariant [where I = "\<lambda>tr L s'. tty s' = tty s" and tr = "[]"]
  by (metis turn_tty)


lemma start_tty: "start W F s0 = (L0, s3, evs0) \<Longrightarrow> tty s3 = tty s0"
  by (auto simp: start_def Let_def split: if_splits)

lemma playE:
  assumes "play fuel W F s0 = (r, L, s, tr)"
  obtains
    (Running) L0 s3 evs0 evs where
      "start W F s0 = (L0, s3, evs0)" "loop fuel W F L0 s3 = (Continue, L, s, evs)"
      "r = Running" "tr = evs0 @ evs"
  | (Raised) L0 s3 evs0 evs e where
      "start W F s0 = (L0, s3, evs0)" "loop fuel W F L0 s3 = (Raise e, L, s, evs)"
      "r = Raised e" "tr = evs0 @ evs"
  | (Finished) L0 s3 evs0 s2 evs evs' where
      "start W F s0 = (L0, s3, evs0)" "loop fuel W F L0 s3 = (Break, L, s2, evs)"
      "finish W L s2 = (s, evs')" "r = Finished" "tr = evs0 @ evs @ evs'"
proof -
  obtain L0 s3 evs0 where st: "start W F s0 = (L0, s3, evs0)"
    by (cases "start W F s0") auto
  obtain c L1 s2 evs where l: "loop fuel W F L0 s3 = (c, L1, s2, evs)"
    by (cases "loop fuel W F L0 s3") auto
  show thesis
  proof (cases c)
    case Continue
    with assms st l show thesis by (intro that(1) [of L0 s3 evs0 evs]) (simp_all add: play_def)
  next
    case (Raise e)
    with assms st l show thesis by (intro that(2) [of L0 s3 evs0 e evs]) (simp_all add: play_def)
  next
    case Break
    obtain s4 evs4 where f: "finish W L1 s2 = (s4, evs4)" by (cases "finish W L1 s2") auto
    with assms st l Break show thesis
      by (intro that(3) [of L0 s3 evs0 s2 evs evs4]) (simp_all add: play_def)
  qed
qed


lemma step_events_append [simp]: "step_events (xs @ ys) = step_events xs @ step_events ys"
  by (induction xs rule: step_events.induct) simp_all

lemma episode_lines_append [simp]:
  "episode_lines (xs @ ys) = episode_lines xs @ episode_lines ys"
  by (induction xs rule: episode_lines.induct) simp_all

lemma chatter_step_events: "list_all chatter evs \<Longrightarrow> step_events evs = []"
  by (induction evs rule: step_events.induct) simp_all

lemma chatter_episode_lines: "list_all chatter evs \<Longrightarrow> episode_lines evs = []"
  by (induction evs rule: episode_lines.induct) simp_all

lemma render_silent [simp]:
  "step_events (render F L) = []" "episode_lines (render F L) = []"
  by (simp_all add: render_def)

lemma start_facts:
  assumes "start W F s = (L0, s3, evs0)"
  shows "L0 = init_locals (now W (ticks s))" "keys s3 = keys s" "tty s3 = tty s"
    "draws s3 = draws s" "ticks s3 = Suc (ticks s)"
    "step_events evs0 = []" "episode_lines evs0 = []"
  using assms by (auto simp: start_def Let_def split: if_splits)

lemma env_stepE:
  assumes "env_step W F L s a = Inr (L2, s2, evs2)"
  obtains
    (Raw) obs d where "raw_env F" "step_raw W (env s) a = Inr (obs, d)"
      "L2 = L\<lparr>done_flag := d\<rparr>" "s2 = s\<lparr>env := obs\<rparr>" "evs2 = [Step a None d]"
  | (Gym) obs r d where "\<not> raw_env F" "step_gym W (env s) a = Inr (obs, r, d)"
      "L2 = L\<lparr>reward := r, done_flag := d\<rparr>" "s2 = s\<lparr>env := obs\<rparr>"
      "evs2 = [Step a (Some r) d]"
  using assms by (auto simp: env_step_def split: if_splits sum.splits)

lemma after_stepE:
  assumes "after_step F L3 = Inr L4"
  obtains
    (Raw) "raw_env F" "L4 = L3\<lparr>done_flag := (done_flag L3 \<or> max_steps F \<le> int (steps L3))\<rparr>"
  | (Gym) "\<not> raw_env F" "steps L3 \<noteq> 0"
      "L4 = L3\<lparr>mean_reward :=
              mean_reward L3 + (reward L3 - mean_reward L3) / real (steps L3)\<rparr>"
  using assms by (auto simp: after_step_def truediv_def split: if_splits)

lemma episode_endE:
  assumes "episode_end W F L s = (c, L', s', evs)"
  obtains
    (Zero) "now W (ticks s) = start_time L" "c = Raise ZeroDivisionError" "L' = L"
      "s' = s\<lparr>ticks := Suc (ticks s)\<rparr>"
      "evs = (if \<not> raw_env F
              then [FinalReward (reward L), EndStatus, MeanReward (mean_reward L)] else [])"
  | (Counted) sps where "now W (ticks s) \<noteq> start_time L"
      "sps = real (steps L) / (now W (ticks s) - start_time L)"
      "L' = L\<lparr>episodes := Suc (episodes L),
               mean_sps := mean_sps L + (sps - mean_sps L) / real (Suc (episodes L)),
               start_time := now W (Suc (ticks s)), steps := 0, mean_reward := 0\<rparr>"
      "c = (if int (Suc (episodes L)) = ngames F then Break else Continue)"
      "s' = (if int (Suc (episodes L)) = ngames F
             then s\<lparr>ticks := Suc (Suc (ticks s))\<rparr>
             else s\<lparr>ticks := Suc (Suc (ticks s)), env := env_reset W (env s)\<rparr>)"
      "evs = (if \<not> raw_env F
              then [FinalReward (reward L), EndStatus, MeanReward (mean_reward L)] else []) @
             EpisodeLine (episodes L) (steps L) sps #
             (if int (Suc (episodes L)) = ngames F then [] else [EnvReset])"
  using assms
  by (auto simp: episode_end_def truediv_def Let_def split: if_splits)

section \<open>The episode numbers printed\<close>

lemma turn_numbers:
  assumes "turn W F L s = (c, L', s', evs)"
  shows "map fst (episode_lines evs) = [episodes L..<episodes L']"
  using assms
proof (cases rule: turnE)
  case (Ends a s1 evs1 L2 s2 evs2 L4 evs3)
  have e4: "episodes L4 = episodes L"
    using Ends(2,3) by (auto elim!: env_stepE after_stepE)
  have "episode_lines (evs1 @ evs2) = []"
    using Ends(1,2) by (auto elim!: env_stepE dest!: get_action_frame chatter_episode_lines)
  moreover have "map fst (episode_lines evs3) = [episodes L4..<episodes L']"
    using Ends(5) by (cases rule: episode_endE) auto
  ultimately show ?thesis using Ends(6) e4 by simp
qed (auto elim!: env_stepE after_stepE dest!: get_action_frame chatter_episode_lines)

lemma loop_numbers:
  assumes "loop n W F L s = (c, L', s', evs)"
  shows "map fst (episode_lines evs) = [episodes L..<episodes L'] \<and> episodes L \<le> episodes L'"
proof -
  have step: "\<And>tr La sa c Lb sb evs.
      map fst (episode_lines tr) = [episodes L..<episodes La] \<and> episodes L \<le> episodes La \<Longrightarrow>
      turn W F La sa = (c, Lb, sb, evs) \<Longrightarrow>
      map fst (episode_lines (tr @ render F La @ evs)) = [episodes L..<episodes Lb] \<and>
      episodes L \<le> episodes Lb"
  proof -
    fix tr La sa c Lb sb evs
    assume I: "map fst (episode_lines tr) = [episodes L..<episodes La] \<and> episodes L \<le> episodes La"
      and t: "turn W F La sa = (c, Lb, sb, evs)"
    have n: "map fst (episode_lines evs) = [episodes La..<episodes Lb]"
      by (rule turn_numbers [OF t])
    have le: "episodes La \<le> episodes Lb"
      using t by (cases rule: turnE)
        (auto elim!: env_stepE after_stepE episode_endE)
    have "[episodes L..<episodes La] @ [episodes La..<episodes Lb] = [episodes L..<episodes Lb]"
      using I le by (metis le_Suc_ex upt_add_eq_append)
    with I n le show "map fst (episode_lines (tr @ render F La @ evs)) = [episodes L..<episodes Lb] \<and>
      episodes L \<le> episodes Lb" by simp
  qed
  from loop_invariant [where I = "\<lambda>tr La sa. map fst (episode_lines tr) = [episodes L..<episodes La]
        \<and> episodes L \<le> episodes La" and tr = "[]", OF assms _ step]
  show ?thesis by simp
qed

section \<open>Sessions that reach the episode target\<close>

lemma get_human_supplies:
  assumes "C_c W \<notin> set (keys s)" and "n < length (filter (accepted W F) (keys s))"
  shows "\<exists>a s' evs. get_human W F s = (Inr (Some a), s', evs) \<and>
           C_c W \<notin> set (keys s') \<and> n \<le> length (filter (accepted W F) (keys s'))"
  using assms
proof (induction ks \<equiv> "keys s" arbitrary: s)
  case Nil
  then show ?case by simp
next
  case (Cons k ks)
  from Cons.hyps(2) have ks: "keys s = k # ks" by simp
  from Cons.prems(1) ks have kc: "k \<noteq> C_c W" by auto
  show ?case
  proof (cases "accepted W F k")
    case True
    with Cons.prems ks kc show ?thesis
      by (auto simp: get_human_Cons accepted_def index_of_None split: option.splits)
  next
    case False
    with kc have nr: "\<not> raw_env F" and idx: "index_of (env_actions W) k = None"
      by (auto simp: accepted_def index_of_None)
    have "\<exists>a s' evs. get_human W F (s\<lparr>keys := ks\<rparr>) = (Inr (Some a), s', evs) \<and>
           C_c W \<notin> set (keys s') \<and> n \<le> length (filter (accepted W F) (keys s'))"
      using Cons.prems ks False by (intro Cons.hyps(1)) auto
    then show ?thesis using ks kc nr idx by (auto simp: get_human_Cons)
  qed
qed

lemma get_action_supplies:
  assumes "mode F = Human \<longrightarrow>
             C_c W \<notin> set (keys s) \<and> n < length (filter (accepted W F) (keys s))"
  shows "\<exists>a s' evs. get_action W F s = (Inr (Some a), s', evs) \<and>
           (mode F = Human \<longrightarrow>
              C_c W \<notin> set (keys s') \<and> n \<le> length (filter (accepted W F) (keys s')))"
proof (cases "mode F")
  case Human
  with assms get_human_supplies [of W s n F] show ?thesis
    by (auto simp: get_action_def)
next
  case Random
  then show ?thesis by (auto simp: get_action_def Let_def)
qed

lemma turn_stepped:
  assumes "get_action W F s = (Inr (Some a), s1, evs1)"
    and "env_step W F (L\<lparr>action := Some a\<rparr>) s1 a = Inr (L2, s2, evs2)"
    and "after_step F (L2\<lparr>steps := steps L2 + 1\<rparr>) = Inr L4"
  shows "turn W F L s =
           (if \<not> done_flag L4 then (Continue, L4, s2, evs1 @ evs2)
            else (case episode_end W F L4 s2 of
                    (c, L5, s3, evs3) \<Rightarrow> (c, L5, s3, evs1 @ evs2 @ evs3)))"
  using assms by (simp add: turn_def act_def split: prod.splits)

lemma stepped_facts:
  assumes "env_step W F (L\<lparr>action := Some a\<rparr>) s1 a = Inr (L2, s2, evs2)"
    and "after_step F (L2\<lparr>steps := steps L2 + 1\<rparr>) = Inr L4"
  shows "episodes L4 = episodes L" "start_time L4 = start_time L"
    "steps L4 = Suc (steps L)" "action L4 = Some a"
    "ticks s2 = ticks s1" "keys s2 = keys s1"
  using assms by (auto elim!: env_stepE after_stepE)

lemma loop_reaches_target:
  fixes \<rho> :: "nat \<Rightarrow> 'e \<Rightarrow> nat" and W :: "'e world"
  assumes prog: "\<And>L s a. \<exists>L2 s2 evs2 L4.
        env_step W F L s a = Inr (L2, s2, evs2) \<and>
        after_step F (L2\<lparr>steps := steps L2 + 1\<rparr>) = Inr L4 \<and>
        (\<not> done_flag L4 \<longrightarrow> \<rho> (steps L4) (env s2) < \<rho> (steps L) (env s))"
    and cap: "\<And>e. \<rho> 0 e < cap"
    and clock: "\<And>i j. i < j \<Longrightarrow> now W i < now W j"
  shows "episodes L < nat (ngames F) \<Longrightarrow>
         \<exists>j<ticks s. start_time L = now W j \<Longrightarrow>
         Suc (\<rho> (steps L) (env s)) + (nat (ngames F) - Suc (episodes L)) * cap \<le> n \<Longrightarrow>
         mode F = Human \<longrightarrow>
           C_c W \<notin> set (keys s) \<and>
           Suc (\<rho> (steps L) (env s)) + (nat (ngames F) - Suc (episodes L)) * cap
             \<le> length (filter (accepted W F) (keys s)) \<Longrightarrow>
         \<exists>L' s' evs. loop n W F L s = (Break, L', s', evs) \<and>
           int (episodes L') = ngames F \<and> action L' \<noteq> None"
proof (induction n arbitrary: L s)
  case 0
  then show ?case by simp
next
  case (Suc n)
  let ?N = "nat (ngames F)"
  let ?\<Phi> = "\<lambda>L s. Suc (\<rho> (steps L) (env s)) + (?N - Suc (episodes L)) * cap"
  have "mode F = Human \<longrightarrow>
          C_c W \<notin> set (keys s) \<and> ?\<Phi> L s - 1 < length (filter (accepted W F) (keys s))"
    using Suc.prems(4) by auto
  from get_action_supplies [OF this]
  obtain a s1 evs1 where g: "get_action W F s = (Inr (Some a), s1, evs1)"
    and k1: "mode F = Human \<longrightarrow>
               C_c W \<notin> set (keys s1) \<and> ?\<Phi> L s - 1 \<le> length (filter (accepted W F) (keys s1))"
    by blast
  from get_action_frame [OF g] have fr: "env s1 = env s" "ticks s1 = ticks s" by simp_all
  from prog [of "L\<lparr>action := Some a\<rparr>" s1 a]
  obtain L2 s2 evs2 L4 where
    es: "env_step W F (L\<lparr>action := Some a\<rparr>) s1 a = Inr (L2, s2, evs2)"
    and as: "after_step F (L2\<lparr>steps := steps L2 + 1\<rparr>) = Inr L4"
    and dec: "\<not> done_flag L4 \<longrightarrow> \<rho> (steps L4) (env s2) < \<rho> (steps L) (env s)"
    using fr by auto
  note sf = stepped_facts [OF es as]
  note t = turn_stepped [OF g es as]
  show ?case
  proof (cases "done_flag L4")
    case False
    with t have t': "turn W F L s = (Continue, L4, s2, evs1 @ evs2)" by simp
    have lt: "?\<Phi> L4 s2 < ?\<Phi> L s" using dec False sf(1) by simp
    have "\<exists>L' s' evs. loop n W F L4 s2 = (Break, L', s', evs) \<and>
            int (episodes L') = ngames F \<and> action L' \<noteq> None"
    proof (rule Suc.IH)
      show "episodes L4 < ?N" using Suc.prems(1) sf(1) by simp
      show "\<exists>j<ticks s2. start_time L4 = now W j" using Suc.prems(2) sf(2,5) fr(2) by simp
      show "?\<Phi> L4 s2 \<le> n" using lt Suc.prems(3) by simp
      show "mode F = Human \<longrightarrow>
              C_c W \<notin> set (keys s2) \<and> ?\<Phi> L4 s2 \<le> length (filter (accepted W F) (keys s2))"
        using k1 lt sf(6) by auto
    qed
    then show ?thesis using t' by auto
  next
    case True
    obtain c L5 s3 evs3 where ee: "episode_end W F L4 s2 = (c, L5, s3, evs3)"
      by (cases "episode_end W F L4 s2") auto
    with t True have t': "turn W F L s = (c, L5, s3, evs1 @ evs2 @ evs3)" by simp
    from Suc.prems(2) obtain j where j: "j < ticks s2" "start_time L4 = now W j"
      using sf(2,5) fr(2) by auto
    from clock [OF j(1)] j(2) have nz: "now W (ticks s2) \<noteq> start_time L4" by simp
    from ee show ?thesis
    proof (cases rule: episode_endE)
      case Zero
      with nz show ?thesis by simp
    next
      case (Counted sps)
      show ?thesis
      proof (cases "int (Suc (episodes L4)) = ngames F")
        case True
        with Counted t' sf(4) show ?thesis by simp
      next
        case False
        with Counted have c: "c = Continue"
          and s3: "s3 = s2\<lparr>ticks := Suc (Suc (ticks s2)), env := env_reset W (env s2)\<rparr>"
          by simp_all
        have L5: "episodes L5 = Suc (episodes L)" "steps L5 = 0"
          "start_time L5 = now W (Suc (ticks s2))"
          using Counted(3) sf(1) by simp_all
        have ep: "Suc (episodes L) < ?N" using False Suc.prems(1) sf(1) by auto
        then obtain k where k: "?N - Suc (episodes L) = Suc k"
          by (metis Suc_diff_Suc)
        have k': "?N - Suc (Suc (episodes L)) = k" using k by simp
        have le: "?\<Phi> L5 s3 \<le> ?\<Phi> L s - 1"
        proof -
          have "Suc (\<rho> 0 (env s3)) \<le> cap" using cap [of "env s3"] by simp
          then have "?\<Phi> L5 s3 \<le> cap + k * cap" using L5 k' by simp
          also have "\<dots> \<le> ?\<Phi> L s - 1" using k by simp
          finally show ?thesis .
        qed
        have "\<exists>L' s' evs. loop n W F L5 s3 = (Break, L', s', evs) \<and>
                int (episodes L') = ngames F \<and> action L' \<noteq> None"
        proof (rule Suc.IH)
          show "episodes L5 < ?N" using ep L5 by simp
          show "\<exists>j<ticks s3. start_time L5 = now W j"
            using L5(3) s3 by (intro exI [of _ "Suc (ticks s2)"]) simp
          show "?\<Phi> L5 s3 \<le> n" using le Suc.prems(3) by simp
          show "mode F = Human \<longrightarrow>
                  C_c W \<notin> set (keys s3) \<and> ?\<Phi> L5 s3 \<le> length (filter (accepted W F) (keys s3))"
            using k1 le sf(6) s3 by auto
        qed
        then show ?thesis using t' c by auto
      qed
    qed
  qed
qed

section \<open>C1: the division that computes the steps per second\<close>

text \<open>
  C1 says that a zero or near-zero duration is reported as an error. The script has no
  guard: \<open>sps = steps / time_delta\<close> (line 160) is carried out for every duration, and
  only Python's division raises, for the duration zero. With a clock that advances by a
  nanosecond per reading, a raw episode of five steps ends after \<open>10\<^sup>-\<^sup>9\<close> seconds; the
  session finishes normally and prints \<open>5 \<times> 10\<^sup>9\<close> steps per second.
\<close>

theorem near_zero_duration_accepted:
  "fst (play 5 (scripted (1 / 1000000000) [])
          (flags0\<lparr>raw_env := True, max_steps := 5\<rparr>) (sys0 [])) = Finished \<and>
   episode_lines (snd (snd (snd (play 5 (scripted (1 / 1000000000) [])
          (flags0\<lparr>raw_env := True, max_steps := 5\<rparr>) (sys0 []))))) = [(0, 5, 5000000000)]"
  by code_simp

text \<open>
  C1, amended. At the end of an episode the steps per second are the step count divided by
  the elapsed time whenever that time is not zero (however small): the episode line is
  printed with this value and the episode is counted. When the elapsed time is exactly
  zero the division raises ZeroDivisionError, which leaves \<open>play\<close>: no episode line is
  printed and the episode is not counted.
\<close>

theorem sps_division:
  assumes "episode_end W F L s = (c, L', s', evs)"
  shows "if now W (ticks s) - start_time L = 0
         then c = Raise ZeroDivisionError \<and> L' = L \<and> episode_lines evs = []
         else (c = Continue \<or> c = Break) \<and> episodes L' = episodes L + 1 \<and>
              episode_lines evs =
                [(episodes L, steps L, real (steps L) / (now W (ticks s) - start_time L))]"
  using assms
  by (auto simp: episode_end_def truediv_def Let_def split: if_splits)

theorem sps_division_witness:
  "episode_end (scripted 0 []) flags0 ((init_locals 0)\<lparr>steps := 3\<rparr>) (sys0 []) =
     (Raise ZeroDivisionError, (init_locals 0)\<lparr>steps := 3\<rparr>,
      \<lparr>env = 0, tty = [1, 2, 3], keys = [], draws = 0, ticks = 1\<rparr>,
      [FinalReward 0, EndStatus, MeanReward 0]) \<and>
   episode_lines [FinalReward 0, EndStatus, MeanReward 0] = []"
proof -
  have e: "episode_end (scripted 0 []) flags0 ((init_locals 0)\<lparr>steps := 3\<rparr>) (sys0 []) =
     (Raise ZeroDivisionError, (init_locals 0)\<lparr>steps := 3\<rparr>,
      \<lparr>env = 0, tty = [1, 2, 3], keys = [], draws = 0, ticks = 1\<rparr>,
      [FinalReward 0, EndStatus, MeanReward 0])"
    by code_simp
  have z: "now (scripted 0 []) (ticks (sys0 [])) - start_time ((init_locals 0)\<lparr>steps := 3\<rparr>) = 0"
    by (simp add: scripted_def init_locals_def)
  from sps_division [OF e] z e show ?thesis by simp
qed

section \<open>C2: there is no session mean of the episodes' mean rewards\<close>

text \<open>
  C2 says that the session keeps a running mean of the per-episode mean rewards. The
  script has one reward mean, \<open>mean_reward\<close>, updated at every step of a gym episode,
  printed at the end of the episode and reset to \<open>0.0\<close> there (line 169); the only running
  mean across episodes is \<open>mean_sps\<close>. In a session of two gym episodes with rewards
  \<open>1, 3\<close> and \<open>6\<close> the episode means are 2 and 6, and their mean 4 is nowhere: at the end
  \<open>mean_reward\<close> is 0, \<open>mean_sps\<close> is \<open>3/2\<close>, and the summary shows the episode count, the
  elapsed time and \<open>mean_sps\<close>.
\<close>

theorem no_session_reward_mean:
  "play 4 (scripted 1 [(1, False), (3, True), (6, True)])
     (flags0\<lparr>ngames := 2, no_render := True\<rparr>) (sys0 []) =
     (Finished,
      \<lparr>done_flag = True, steps = 0, episodes = 2, reward = 6, action = Some 2,
       mean_sps = 3 / 2, mean_reward = 0, total_start_time = 0, start_time = 4\<rparr>,
      \<lparr>env = 3, tty = [1, 2, 3], keys = [], draws = 3, ticks = 6\<rparr>,
      [EnvReset, Step 0 (Some 1) False, Step 1 (Some 3) True, FinalReward 3,
       EndStatus, MeanReward 2, EpisodeLine 0 2 2, EnvReset,
       Step 2 (Some 6) True, FinalReward 6, EndStatus, MeanReward 6,
       EpisodeLine 1 1 1, EnvClose, Summary 2 5 (3 / 2)])"
  by code_simp

lemma turn_mean_reset:
  assumes "turn W F L s = (c, L', s', evs)" and "steps L = 0 \<longrightarrow> mean_reward L = 0"
  shows "steps L' = 0 \<longrightarrow> mean_reward L' = 0"
  using assms(1)
proof (cases rule: turnE)
  case (Ends a s1 evs1 L2 s2 evs2 L4 evs3)
  have "steps L4 \<noteq> 0" using Ends(3) by (auto elim!: after_stepE)
  with Ends(5) show ?thesis by (cases rule: episode_endE) auto
qed (use assms(2) in \<open>auto elim!: env_stepE after_stepE\<close>)

lemma turn_break:
  assumes "turn W F L s = (Break, L', s', evs)"
  shows "action L' = None \<or> (steps L' = 0 \<and> int (episodes L') = ngames F)"
  using assms
proof (cases rule: turnE)
  case (Ends a s1 evs1 L2 s2 evs2 L4 evs3)
  from Ends(5) show ?thesis by (cases rule: episode_endE) (auto split: if_splits)
qed auto

lemma loop_break:
  "loop n W F L s = (Break, L', s', evs) \<Longrightarrow>
   action L' = None \<or> (steps L' = 0 \<and> int (episodes L') = ngames F)"
proof (induction n arbitrary: L s evs)
  case 0
  then show ?case by simp
next
  case (Suc n)
  obtain c1 L1 s1 evs1 where t: "turn W F L s = (c1, L1, s1, evs1)"
    by (cases "turn W F L s") auto
  show ?case
  proof (cases c1)
    case Continue
    obtain c2 L2 s2 evs2 where l: "loop n W F L1 s1 = (c2, L2, s2, evs2)"
      by (cases "loop n W F L1 s1") auto
    with Suc.prems t Continue have "loop n W F L1 s1 = (Break, L', s', evs2)" by simp
    then show ?thesis by (rule Suc.IH)
  next
    case Break
    with Suc.prems t have "turn W F L s = (Break, L', s', evs1)" by simp
    then show ?thesis by (rule turn_break)
  next
    case (Raise e)
    with Suc.prems t show ?thesis by simp
  qed
qed

text \<open>
  C2, amended. The only mean of rewards is the per-episode one: \<open>mean_reward\<close> is the
  running mean over the steps of the current gym episode; it is zero whenever the
  step count is zero, that is at the start of every episode, and when \<open>play\<close> returns
  because the episode target is reached the step count and \<open>mean_reward\<close> are zero. No
  mean of the per-episode mean rewards is kept or reported.
\<close>

theorem reward_mean_is_per_episode:
  assumes "play fuel W F s0 = (r, L, s, tr)"
  shows "(steps L = 0 \<longrightarrow> mean_reward L = 0) \<and>
         (r = Finished \<and> action L \<noteq> None \<longrightarrow>
            steps L = 0 \<and> mean_reward L = 0 \<and> int (episodes L) = ngames F)"
proof -
  have inv: "steps L' = 0 \<longrightarrow> mean_reward L' = 0"
    if "start W F s0 = (L0, s3, evs0)" and "loop fuel W F L0 s3 = (c, L', s', evs)"
    for L0 s3 evs0 c L' s' evs
  proof -
    have "steps L0 = 0 \<longrightarrow> mean_reward L0 = 0"
      using start_facts(1) [OF that(1)] by (simp add: init_locals_def)
    show ?thesis
      by (rule loop_invariant [where I = "\<lambda>tr L s. steps L = 0 \<longrightarrow> mean_reward L = 0"
            and tr = "[]", OF that(2) \<open>steps L0 = 0 \<longrightarrow> mean_reward L0 = 0\<close>])
         (erule (1) turn_mean_reset [rotated])
  qed
  from assms show ?thesis
  proof (cases rule: playE)
    case (Running L0 s3 evs0 evs)
    from inv [OF Running(1,2)] Running(3) show ?thesis by simp
  next
    case (Raised L0 s3 evs0 evs e)
    from inv [OF Raised(1,2)] Raised(3) show ?thesis by simp
  next
    case (Finished L0 s3 evs0 s2 evs evs')
    from inv [OF Finished(1,2)] loop_break [OF Finished(2)] show ?thesis by auto
  qed
qed

theorem reward_mean_is_per_episode_witness:
  "play 4 (scripted 1 [(1, False), (3, True), (6, True)])
     (flags0\<lparr>ngames := 2, no_render := True\<rparr>) (sys0 []) =
     (Finished,
      \<lparr>done_flag = True, steps = 0, episodes = 2, reward = 6, action = Some 2,
       mean_sps = 3 / 2, mean_reward = 0, total_start_time = 0, start_time = 4\<rparr>,
      \<lparr>env = 3, tty = [1, 2, 3], keys = [], draws = 3, ticks = 6\<rparr>,
      [EnvReset, Step 0 (Some 1) False, Step 1 (Some 3) True, FinalReward 3,
       EndStatus, MeanReward 2, EpisodeLine 0 2 2, EnvReset,
       Step 2 (Some 6) True, FinalReward 6, EndStatus, MeanReward 6,
       EpisodeLine 1 1 1, EnvClose, Summary 2 5 (3 / 2)]) \<and>
   int 2 = ngames (flags0\<lparr>ngames := 2, no_render := True\<rparr>)"
proof -
  have p: "play 4 (scripted 1 [(1, False), (3, True), (6, True)])
     (flags0\<lparr>ngames := 2, no_render := True\<rparr>) (sys0 []) =
     (Finished,
      \<lparr>done_flag = True, steps = 0, episodes = 2, reward = 6, action = Some 2,
       mean_sps = 3 / 2, mean_reward = 0, total_start_time = 0, start_time = 4\<rparr>,
      \<lparr>env = 3, tty = [1, 2, 3], keys = [], draws = 3, ticks = 6\<rparr>,
      [EnvReset, Step 0 (Some 1) False, Step 1 (Some 3) True, FinalReward 3,
       EndStatus, MeanReward 2, EpisodeLine 0 2 2, EnvReset,
       Step 2 (Some 6) True, FinalReward 6, EndStatus, MeanReward 6,
       EpisodeLine 1 1 1, EnvClose, Summary 2 5 (3 / 2)])"
    by code_simp
  from reward_mean_is_per_episode [OF p] p show ?thesis by simp
qed

section \<open>C3: the step cap of the raw variant\<close>

lemma turn_capped:
  fixes W :: "'e world"
  assumes raw: "raw_env F" and never: "\<And>e a. \<exists>e'. step_raw W e a = Inr (e', False)"
    and clock: "\<And>i j. i < j \<Longrightarrow> now W i < now W j"
    and inv: "steps L < m \<and> (\<exists>j<ticks s. start_time L = now W j) \<and>
              (\<forall>l\<in>set (episode_lines tr). fst (snd l) = m)"
    and m: "int m = max_steps F"
    and t: "turn W F L s = (c, L', s', evs)"
  shows "steps L' < m \<and> (\<exists>j<ticks s'. start_time L' = now W j) \<and>
         (\<forall>l\<in>set (episode_lines (tr @ render F L @ evs)). fst (snd l) = m)"
  using t
proof (cases rule: turnE)
  case (Input_raised e)
  with inv show ?thesis
    by (auto dest!: get_action_frame simp: chatter_episode_lines)
next
  case Exit
  with inv show ?thesis
    by (auto dest!: get_action_frame simp: chatter_episode_lines)
next
  case (Step_raised a e)
  with inv show ?thesis
    by (auto dest!: get_action_frame simp: chatter_episode_lines)
next
  case (Mean_raised a s1 evs1 L2 evs2 e)
  with raw have False by (simp add: after_step_def)
  then show ?thesis ..
next
  case (Continues a s1 evs1 L2 evs2)
  from get_action_frame [OF Continues(1)]
  have fr: "ticks s1 = ticks s" "episode_lines evs1 = []"
    by (simp_all add: chatter_episode_lines)
  note sf = stepped_facts [OF Continues(2,3)]
  have "episode_lines evs2 = []" using Continues(2) by (auto elim!: env_stepE)
  moreover have "steps L' < m"
    using Continues(2,3,4) raw m by (auto elim!: env_stepE after_stepE)
  ultimately show ?thesis using inv fr sf Continues(6) by auto
next
  case (Ends a s1 evs1 L2 s2 evs2 L4 evs3)
  from get_action_frame [OF Ends(1)]
  have fr: "ticks s1 = ticks s" "episode_lines evs1 = []" "env s1 = env s"
    by (simp_all add: chatter_episode_lines)
  note sf = stepped_facts [OF Ends(2,3)]
  obtain e' where "step_raw W (env s1) a = Inr (e', False)" using never by blast
  with Ends(2,3,4) raw m have full: "m \<le> Suc (steps L)" and e2: "episode_lines evs2 = []"
    by (auto elim!: env_stepE after_stepE)
  with inv sf(3) have s4: "steps L4 = m" by simp
  from inv obtain j where j: "j < ticks s2" "start_time L4 = now W j"
    using sf(2,5) fr(1) by auto
  from clock [OF j(1)] j(2) have nz: "now W (ticks s2) \<noteq> start_time L4" by simp
  from Ends(5) show ?thesis
  proof (cases rule: episode_endE)
    case Zero
    with nz show ?thesis by simp
  next
    case (Counted sps)
    have "steps L' < m" using Counted(3) inv by auto
    moreover have "\<exists>j<ticks s'. start_time L' = now W j"
      using Counted(3,5) by (intro exI [of _ "Suc (ticks s2)"]) (auto split: if_splits)
    moreover have "\<forall>l\<in>set (episode_lines evs3). fst (snd l) = m"
      using Counted(6) raw s4 by auto
    ultimately show ?thesis using inv fr e2 Ends(6) by auto
  qed
qed

text \<open>
  C3. In the raw variant the runner applies the cap itself (line 146). If the raw
  environment never signals done and does not raise, the clock advances between two
  readings, and the mode is random, then with a step cap \<open>max_steps\<close> of at least 1 and an
  episode target of at least 1 the session returns after exactly the target number of
  episodes, numbered from 0, and every episode line shows \<open>max_steps\<close> steps. With
  \<open>max_steps = 5\<close> and a target of 2: two episodes of five steps each.
\<close>

theorem raw_episodes_truncated:
  fixes W :: "'e world"
  assumes raw: "raw_env F" and random: "mode F = Random"
    and never: "\<forall>e a. \<exists>e'. step_raw W e a = Inr (e', False)"
    and clock: "\<forall>i j. i < j \<longrightarrow> now W i < now W j"
    and cap: "1 \<le> max_steps F" and target: "1 \<le> ngames F"
    and fuel: "nat (ngames F) * nat (max_steps F) \<le> fuel"
  shows "\<exists>L s tr. play fuel W F s0 = (Finished, L, s, tr) \<and>
           int (episodes L) = ngames F \<and>
           map fst (episode_lines tr) = [0..<nat (ngames F)] \<and>
           map (\<lambda>l. fst (snd l)) (episode_lines tr) =
             replicate (nat (ngames F)) (nat (max_steps F))"
proof -
  let ?N = "nat (ngames F)" and ?m = "nat (max_steps F)"
  define \<rho> where "\<rho> = (\<lambda>k (e::'e). ?m - Suc k)"
  have never': "\<exists>e'. step_raw W e a = Inr (e', False)" for e a
    using never by blast
  have clock': "now W i < now W j" if "i < j" for i j
    using clock that by blast
  have prog: "\<exists>L2 s2 evs2 L4.
        env_step W F L s a = Inr (L2, s2, evs2) \<and>
        after_step F (L2\<lparr>steps := steps L2 + 1\<rparr>) = Inr L4 \<and>
        (\<not> done_flag L4 \<longrightarrow> \<rho> (steps L4) (env s2) < \<rho> (steps L) (env s))"
    for L and s :: "'e sys" and a
  proof -
    obtain e' where "step_raw W (env s) a = Inr (e', False)" using never' by blast
    with raw show ?thesis
      by (auto simp: env_step_def after_step_def \<rho>_def)
  qed
  have rho0: "\<rho> 0 e < ?m" for e using cap by (simp add: \<rho>_def)
  obtain L0 s3 evs0 where st: "start W F s0 = (L0, s3, evs0)"
    by (cases "start W F s0") auto
  note sf = start_facts [OF st]
  have N: "0 < ?N" using target by simp
  then obtain k where k: "?N = Suc k" by (cases ?N) auto
  have phi: "Suc (\<rho> (steps L0) (env s3)) + (?N - Suc (episodes L0)) * ?m \<le> ?N * ?m"
    using rho0 [of "env s3"] sf(1) k by (simp add: init_locals_def)
  have "\<exists>L' s' evs. loop fuel W F L0 s3 = (Break, L', s', evs) \<and>
          int (episodes L') = ngames F \<and> action L' \<noteq> None"
  proof (rule loop_reaches_target [where \<rho> = \<rho> and cap = ?m, OF prog rho0 clock'])
    show "episodes L0 < ?N" using N sf(1) by (simp add: init_locals_def)
    show "\<exists>j<ticks s3. start_time L0 = now W j"
      using sf(1,5) by (intro exI [of _ "ticks s0"]) (simp add: init_locals_def)
    show "Suc (\<rho> (steps L0) (env s3)) + (?N - Suc (episodes L0)) * ?m \<le> fuel"
      using phi fuel by simp
    show "mode F = Human \<longrightarrow>
            C_c W \<notin> set (keys s3) \<and>
            Suc (\<rho> (steps L0) (env s3)) + (?N - Suc (episodes L0)) * ?m
              \<le> length (filter (accepted W F) (keys s3))"
      using random by simp
  qed
  then obtain L' s' evs where l: "loop fuel W F L0 s3 = (Break, L', s', evs)"
    and e: "int (episodes L') = ngames F"
    by blast
  have eN: "episodes L' = ?N" using e by simp
  have "map fst (episode_lines evs) = [episodes L0..<episodes L']"
    using loop_numbers [OF l] by simp
  then have n: "map fst (episode_lines (evs0 @ evs)) = [0..<?N]"
    using sf(1,7) eN by (simp add: init_locals_def)
  have I0: "steps L0 < ?m \<and> (\<exists>j<ticks s3. start_time L0 = now W j) \<and>
            (\<forall>l\<in>set (episode_lines evs0). fst (snd l) = ?m)"
    using sf(1,5,7) cap by (auto simp: init_locals_def)
  have m: "int ?m = max_steps F" using cap by simp
  have "steps L' < ?m \<and> (\<exists>j<ticks s'. start_time L' = now W j) \<and>
        (\<forall>l\<in>set (episode_lines (evs0 @ evs)). fst (snd l) = ?m)"
    by (rule loop_invariant [where I = "\<lambda>tr L s. steps L < ?m \<and>
            (\<exists>j<ticks s. start_time L = now W j) \<and>
            (\<forall>l\<in>set (episode_lines tr). fst (snd l) = ?m)", OF l I0])
       (rule turn_capped [OF raw never' clock' _ m])
  then have all: "\<forall>y\<in>set (map (\<lambda>l. fst (snd l)) (episode_lines (evs0 @ evs))). y = ?m"
    by auto
  have len: "length (map (\<lambda>l. fst (snd l)) (episode_lines (evs0 @ evs))) = ?N"
    using arg_cong [OF n, of length] by simp
  have r: "map (\<lambda>l. fst (snd l)) (episode_lines (evs0 @ evs)) = replicate ?N ?m"
    using replicate_length_same [OF all] len by simp
  have "play fuel W F s0 =
          (Finished, L', s'\<lparr>ticks := Suc (ticks s')\<rparr>,
           (evs0 @ evs) @
           [EnvClose, Summary (episodes L') (now W (ticks s') - total_start_time L') (mean_sps L')])"
    by (simp add: play_def st l finish_def)
  with e n r show ?thesis by auto
qed

theorem raw_episodes_truncated_witness:
  "raw_env (flags0\<lparr>raw_env := True, max_steps := 5, ngames := 2, no_render := True\<rparr>) \<and>
   mode (flags0\<lparr>raw_env := True, max_steps := 5, ngames := 2, no_render := True\<rparr>) = Random \<and>
   (\<exists>L s tr.
      play 10 (scripted 1 [])
        (flags0\<lparr>raw_env := True, max_steps := 5, ngames := 2, no_render := True\<rparr>) (sys0 []) =
        (Finished, L, s, tr) \<and>
      episodes L = 2 \<and>
      map fst (episode_lines tr) = [0, 1] \<and>
      map (\<lambda>l. fst (snd l)) (episode_lines tr) = [5, 5]) \<and>
   play 10 (scripted 1 [])
     (flags0\<lparr>raw_env := True, max_steps := 5, ngames := 2, no_render := True\<rparr>) (sys0 []) =
     (Finished,
      \<lparr>done_flag = True, steps = 0, episodes = 2, reward = 0, action = Some 66,
       mean_sps = 5, mean_reward = 0, total_start_time = 0, start_time = 4\<rparr>,
      \<lparr>env = 10, tty = [1, 2, 3], keys = [], draws = 10, ticks = 6\<rparr>,
      [EnvReset, PrintAction 106, Step 106 None False, PrintAction 76,
       Step 76 None False, PrintAction 13, Step 13 None False, PrintAction 98,
       Step 98 None False, PrintAction 78, Step 78 None False,
       EpisodeLine 0 5 5, EnvReset, PrintAction 104, Step 104 None False,
       PrintAction 74, Step 74 None False, PrintAction 107, Step 107 None False,
       PrintAction 121, Step 121 None False, PrintAction 66, Step 66 None False,
       EpisodeLine 1 5 5, EnvClose, Summary 2 5 5])"
proof -
  let ?W = "scripted 1 [] :: nat world"
  let ?F = "flags0\<lparr>raw_env := True, max_steps := 5, ngames := 2, no_render := True\<rparr>"
  have raw: "raw_env ?F" and random: "mode ?F = Random"
    and cap: "1 \<le> max_steps ?F" and target: "1 \<le> ngames ?F"
    and fuel: "nat (ngames ?F) * nat (max_steps ?F) \<le> 10"
    by (simp_all add: flags0_def)
  have never: "\<forall>e a. \<exists>e'. step_raw ?W e a = Inr (e', False)"
    and clock: "\<forall>i j. i < j \<longrightarrow> now ?W i < now ?W j"
    by (simp_all add: scripted_def)
  have N: "nat (ngames ?F) = 2" "nat (max_steps ?F) = 5" "ngames ?F = 2"
    by (simp_all add: flags0_def)
  have two: "[0..<2] = [0, Suc 0]" "replicate 2 (5::nat) = [5, 5]"
    by (simp_all add: numeral_2_eq_2)
  have p: "play 10 ?W ?F (sys0 []) =
     (Finished,
      \<lparr>done_flag = True, steps = 0, episodes = 2, reward = 0, action = Some 66,
       mean_sps = 5, mean_reward = 0, total_start_time = 0, start_time = 4\<rparr>,
      \<lparr>env = 10, tty = [1, 2, 3], keys = [], draws = 10, ticks = 6\<rparr>,
      [EnvReset, PrintAction 106, Step 106 None False, PrintAction 76,
       Step 76 None False, PrintAction 13, Step 13 None False, PrintAction 98,
       Step 98 None False, PrintAction 78, Step 78 None False,
       EpisodeLine 0 5 5, EnvReset, PrintAction 104, Step 104 None False,
       PrintAction 74, Step 74 None False, PrintAction 107, Step 107 None False,
       PrintAction 121, Step 121 None False, PrintAction 66, Step 66 None False,
       EpisodeLine 1 5 5, EnvClose, Summary 2 5 5])"
    by code_simp
  from raw_episodes_truncated [OF raw random never clock cap target fuel, of "sys0 []"]
  obtain L s tr where "play 10 ?W ?F (sys0 []) = (Finished, L, s, tr)"
    and "int (episodes L) = ngames ?F"
    and "map fst (episode_lines tr) = [0..<nat (ngames ?F)]"
    and "map (\<lambda>l. fst (snd l)) (episode_lines tr) =
           replicate (nat (ngames ?F)) (nat (max_steps ?F))"
    by blast
  then have "play 10 ?W ?F (sys0 []) = (Finished, L, s, tr) \<and>
      episodes L = 2 \<and>
      map fst (episode_lines tr) = [0, 1] \<and>
      map (\<lambda>l. fst (snd l)) (episode_lines tr) = [5, 5]"
    using N two by simp
  then have ex: "\<exists>L s tr. play 10 ?W ?F (sys0 []) = (Finished, L, s, tr) \<and>
      episodes L = 2 \<and>
      map fst (episode_lines tr) = [0, 1] \<and>
      map (\<lambda>l. fst (snd l)) (episode_lines tr) = [5, 5]"
    by (intro exI)
  show ?thesis by (intro conjI) (rule raw random ex p)+
qed

section \<open>C4: the running means are the arithmetic means\<close>

lemma episode_rewards_append:
  "episode_rewards acc (xs @ ys) = episode_rewards (episode_rewards acc xs) ys"
  by (induction acc xs rule: episode_rewards.induct) simp_all

lemma mean_prints_exact_append:
  "mean_prints_exact acc (xs @ ys) \<longleftrightarrow>
   mean_prints_exact acc xs \<and> mean_prints_exact (episode_rewards acc xs) ys"
  by (induction acc xs rule: mean_prints_exact.induct) auto

lemma chatter_rewards:
  "list_all chatter evs \<Longrightarrow> episode_rewards acc evs = acc \<and> mean_prints_exact acc evs"
  by (induction acc evs rule: mean_prints_exact.induct) simp_all

lemma render_rewards [simp]:
  "episode_rewards acc (render F L) = acc" "mean_prints_exact acc (render F L)"
  by (simp_all add: render_def)

lemma running_mean_step:
  "S = real n * m \<Longrightarrow> S + x = real (Suc n) * (m + (x - m) / real (Suc n))"
proof -
  assume a: "S = real n * m"
  have "real (Suc n) * (m + (x - m) / real (Suc n)) = real (Suc n) * m + (x - m)"
    by (simp add: distrib_left)
  also have "\<dots> = real n * m + x" by (simp add: distrib_right)
  finally show ?thesis using a by simp
qed

lemma sps_values_append [simp]: "sps_values (xs @ ys) = sps_values xs @ sps_values ys"
  by (simp add: sps_values_def)

lemma sps_values_simps [simp]:
  "sps_values [] = []"
  "sps_values (EpisodeLine n k x # evs) = x # sps_values evs"
  "sps_values (Step a r d # evs) = sps_values evs"
  "sps_values (FinalReward y # evs) = sps_values evs"
  "sps_values (EndStatus # evs) = sps_values evs"
  "sps_values (MeanReward y # evs) = sps_values evs"
  "sps_values (EnvReset # evs) = sps_values evs"
  "sps_values (WizardGenesis # evs) = sps_values evs"
  "sps_values (EnvClose # evs) = sps_values evs"
  "sps_values (Summary n y z # evs) = sps_values evs"
  by (simp_all add: sps_values_def)

lemma chatter_sps [simp]: "list_all chatter evs \<Longrightarrow> sps_values evs = []"
  by (simp add: sps_values_def chatter_episode_lines)

lemma render_sps [simp]: "sps_values (render F L) = []"
  by (simp add: sps_values_def)

lemma means_inv_quiet:
  assumes "means_inv F tr L" and "list_all chatter evs"
    and "steps L' = steps L" "mean_reward L' = mean_reward L"
    and "episodes L' = episodes L" "mean_sps L' = mean_sps L"
  shows "means_inv F (tr @ render F La @ evs) L'"
  using assms
  by (simp add: means_inv_def episode_rewards_append mean_prints_exact_append chatter_rewards)

lemma step_means:
  assumes "means_inv F tr L" and "list_all chatter evs1"
    and "env_step W F (L\<lparr>action := Some a\<rparr>) s1 a = Inr (L2, s2, evs2)"
    and "after_step F (L2\<lparr>steps := steps L2 + 1\<rparr>) = Inr L4"
  shows "means_inv F (tr @ render F L @ evs1 @ evs2) L4 \<and> steps L4 \<noteq> 0"
  using assms(3)
proof (cases rule: env_stepE)
  case (Raw obs d)
  with assms(4) have "steps L4 = Suc (steps L)" "mean_reward L4 = mean_reward L"
    "episodes L4 = episodes L" "mean_sps L4 = mean_sps L"
    by (auto elim!: after_stepE)
  with assms(1,2) Raw(1,5) show ?thesis
    by (simp add: means_inv_def episode_rewards_append mean_prints_exact_append chatter_rewards)
next
  case (Gym obs r d)
  with assms(4) have L4: "steps L4 = Suc (steps L)"
    "mean_reward L4 = mean_reward L + (r - mean_reward L) / real (Suc (steps L))"
    "episodes L4 = episodes L" "mean_sps L4 = mean_sps L"
    by (auto elim!: after_stepE)
  have rw: "episode_rewards [] (tr @ render F L @ evs1 @ evs2) = episode_rewards [] tr @ [r]"
    using assms(2) Gym(5) by (simp add: episode_rewards_append chatter_rewards)
  have pr: "mean_prints_exact [] (tr @ render F L @ evs1 @ evs2)"
    using assms(1,2) Gym(5)
    by (simp add: means_inv_def episode_rewards_append mean_prints_exact_append chatter_rewards)
  have sum: "sum_list (episode_rewards [] tr) + r = real (steps L4) * mean_reward L4"
    unfolding L4 using assms(1) Gym(1) by (intro running_mean_step) (simp add: means_inv_def)
  from assms(1,2) Gym(1,5) L4 rw pr sum show ?thesis
    by (simp add: means_inv_def)
qed

lemma end_means:
  assumes "means_inv F tr L4" and "steps L4 \<noteq> 0"
    and "episode_end W F L4 s2 = (c, L', s', evs3)"
  shows "means_inv F (tr @ evs3) L'"
  using assms(3)
proof (cases rule: episode_endE)
  case Zero
  have "mean_reward L4 = sum_list (episode_rewards [] tr) / real (length (episode_rewards [] tr))"
    and "episode_rewards [] tr \<noteq> []" if "\<not> raw_env F"
    using assms(1,2) that by (auto simp: means_inv_def field_simps)
  with assms(1) Zero show ?thesis
    by (auto simp: means_inv_def episode_rewards_append mean_prints_exact_append)
next
  case (Counted sps)
  have m: "mean_reward L4 = sum_list (episode_rewards [] tr) / real (length (episode_rewards [] tr))"
    and ne: "episode_rewards [] tr \<noteq> []" if "\<not> raw_env F"
    using assms(1,2) that by (auto simp: means_inv_def field_simps)
  have sum: "sum_list (sps_values tr) + sps =
             real (Suc (episodes L4)) *
               (mean_sps L4 + (sps - mean_sps L4) / real (Suc (episodes L4)))"
    using assms(1) by (intro running_mean_step) (simp add: means_inv_def)
  have pr: "mean_prints_exact [] (tr @ evs3)"
    using assms(1) Counted(6) m ne
    by (auto simp: means_inv_def mean_prints_exact_append episode_rewards_append)
  have rw: "episode_rewards [] (tr @ evs3) = []"
    using Counted(6) by (auto simp: episode_rewards_append)
  have sp: "sps_values (tr @ evs3) = sps_values tr @ [sps]"
    using Counted(6) by auto
  from assms(1) Counted(3) sum pr rw sp show ?thesis
    by (simp add: means_inv_def)
qed

lemma turn_means:
  assumes "means_inv F tr L" and "turn W F L s = (c, L', s', evs)"
  shows "means_inv F (tr @ render F L @ evs) L'"
  using assms(2)
proof (cases rule: turnE)
  case (Input_raised e)
  with assms(1) show ?thesis
    by (auto intro!: means_inv_quiet dest!: get_action_frame)
next
  case Exit
  with assms(1) show ?thesis
    by (auto intro!: means_inv_quiet dest!: get_action_frame)
next
  case (Step_raised a e)
  with assms(1) show ?thesis
    by (auto intro!: means_inv_quiet dest!: get_action_frame)
next
  case (Mean_raised a s1 evs1 L2 evs2 e)
  then have False by (auto simp: after_step_def truediv_def split: if_splits)
  then show ?thesis ..
next
  case (Continues a s1 evs1 L2 evs2)
  have "list_all chatter evs1" using Continues(1) by (auto dest!: get_action_frame)
  from step_means [OF assms(1) this Continues(2,3)] Continues(6) show ?thesis by simp
next
  case (Ends a s1 evs1 L2 s2 evs2 L4 evs3)
  have "list_all chatter evs1" using Ends(1) by (auto dest!: get_action_frame)
  from step_means [OF assms(1) this Ends(2,3)]
  have "means_inv F (tr @ render F L @ evs1 @ evs2) L4" and "steps L4 \<noteq> 0" by simp_all
  from end_means [OF this Ends(5)] Ends(6) show ?thesis by simp
qed

lemma play_means:
  assumes "play fuel W F s0 = (r, L, s, tr)"
  shows "means_inv F tr L"
proof -
  have inv: "means_inv F (evs0 @ evs) L'"
    if "start W F s0 = (L0, s3, evs0)" and "loop fuel W F L0 s3 = (c, L', s', evs)"
    for L0 s3 evs0 c L' s' evs
  proof -
    have "means_inv F evs0 L0"
      using that(1) by (auto simp: start_def Let_def means_inv_def init_locals_def split: if_splits)
    then show ?thesis
      by (rule loop_invariant [where I = "\<lambda>tr L s. means_inv F tr L", OF that(2)])
         (erule (1) turn_means)
  qed
  from assms show ?thesis
  proof (cases rule: playE)
    case (Running L0 s3 evs0 evs)
    from inv [OF Running(1,2)] Running(4) show ?thesis by simp
  next
    case (Raised L0 s3 evs0 evs e)
    from inv [OF Raised(1,2)] Raised(4) show ?thesis by simp
  next
    case (Finished L0 s3 evs0 s2 evs evs')
    from inv [OF Finished(1,2)] Finished(3,5) show ?thesis
      by (auto simp: finish_def means_inv_def episode_rewards_append mean_prints_exact_append)
  qed
qed

text \<open>
  C4. With exact arithmetic, at every moment of every session (any fuel, any outcome):
  in a gym environment the step count is the number of rewards returned in the current
  episode and, when there is one, \<open>mean_reward\<close> is their arithmetic mean; every mean
  reward printed at the end of an episode is the arithmetic mean of that episode's
  rewards; the episode count is the number of episode lines printed and, when there is
  one, \<open>mean_sps\<close> is the arithmetic mean of the steps per second printed in them.
  The rewards 1, 2, 3 of one episode give the printed mean 2.
\<close>

theorem running_means_exact:
  assumes "play fuel W F s0 = (r, L, s, tr)"
  shows "(\<not> raw_env F \<longrightarrow>
            steps L = length (episode_rewards [] tr) \<and>
            (0 < steps L \<longrightarrow>
               mean_reward L = sum_list (episode_rewards [] tr) / real (steps L))) \<and>
         mean_prints_exact [] tr \<and>
         episodes L = length (sps_values tr) \<and>
         (0 < episodes L \<longrightarrow> mean_sps L = sum_list (sps_values tr) / real (episodes L))"
proof -
  have m: "means_inv F tr L" by (rule play_means [OF assms])
  have "mean_reward L = sum_list (episode_rewards [] tr) / real (steps L)"
    if "\<not> raw_env F" "0 < steps L"
    using m that by (simp add: means_inv_def)
  moreover have "mean_sps L = sum_list (sps_values tr) / real (episodes L)"
    if "0 < episodes L"
    using m that by (simp add: means_inv_def)
  ultimately show ?thesis using m by (simp add: means_inv_def)
qed

theorem running_means_exact_witness:
  "play 3 (scripted 1 [(1, False), (2, False), (3, True)])
     (flags0\<lparr>no_render := True\<rparr>) (sys0 []) =
     (Finished,
      \<lparr>done_flag = True, steps = 0, episodes = 1, reward = 3, action = Some 2,
       mean_sps = 3, mean_reward = 0, total_start_time = 0, start_time = 2\<rparr>,
      \<lparr>env = 3, tty = [1, 2, 3], keys = [], draws = 3, ticks = 4\<rparr>,
      [EnvReset, Step 0 (Some 1) False, Step 1 (Some 2) False,
       Step 2 (Some 3) True, FinalReward 3, EndStatus, MeanReward 2,
       EpisodeLine 0 3 3, EnvClose, Summary 1 3 3]) \<and>
   mean_prints_exact []
      [EnvReset, Step 0 (Some 1) False, Step 1 (Some 2) False,
       Step 2 (Some 3) True, FinalReward 3, EndStatus, MeanReward 2,
       EpisodeLine 0 3 3, EnvClose, Summary 1 3 3] \<and>
   play 2 (scripted 1 [(1, False), (2, False), (3, True)])
     (flags0\<lparr>no_render := True\<rparr>) (sys0 []) =
     (Running,
      \<lparr>done_flag = False, steps = 2, episodes = 0, reward = 2, action = Some 1,
       mean_sps = 0, mean_reward = 3 / 2, total_start_time = 0, start_time = 0\<rparr>,
      \<lparr>env = 2, tty = [1, 2, 3], keys = [], draws = 2, ticks = 1\<rparr>,
      [EnvReset, Step 0 (Some 1) False, Step 1 (Some 2) False]) \<and>
   (3 / 2 :: real) =
     sum_list (episode_rewards [] [EnvReset, Step 0 (Some 1) False, Step 1 (Some 2) False]) /
     real 2"
proof -
  have p: "play 3 (scripted 1 [(1, False), (2, False), (3, True)])
     (flags0\<lparr>no_render := True\<rparr>) (sys0 []) =
     (Finished,
      \<lparr>done_flag = True, steps = 0, episodes = 1, reward = 3, action = Some 2,
       mean_sps = 3, mean_reward = 0, total_start_time = 0, start_time = 2\<rparr>,
      \<lparr>env = 3, tty = [1, 2, 3], keys = [], draws = 3, ticks = 4\<rparr>,
      [EnvReset, Step 0 (Some 1) False, Step 1 (Some 2) False,
       Step 2 (Some 3) True, FinalReward 3, EndStatus, MeanReward 2,
       EpisodeLine 0 3 3, EnvClose, Summary 1 3 3])"
    by code_simp
  have q: "play 2 (scripted 1 [(1, False), (2, False), (3, True)])
     (flags0\<lparr>no_render := True\<rparr>) (sys0 []) =
     (Running,
      \<lparr>done_flag = False, steps = 2, episodes = 0, reward = 2, action = Some 1,
       mean_sps = 0, mean_reward = 3 / 2, total_start_time = 0, start_time = 0\<rparr>,
      \<lparr>env = 2, tty = [1, 2, 3], keys = [], draws = 2, ticks = 1\<rparr>,
      [EnvReset, Step 0 (Some 1) False, Step 1 (Some 2) False])"
    by code_simp
  have g: "\<not> raw_env (flags0\<lparr>no_render := True\<rparr>)" by (simp add: flags0_def)
  from running_means_exact [OF p] running_means_exact [OF q] g p q
  show ?thesis by simp
qed

section \<open>C10: the numbering of the episode lines\<close>

text \<open>
  C10. The episode line carries the episode counter as it is before the increment of line
  163: in every session, at every moment, the numbers printed in the episode lines so far
  are \<open>0, 1, \<dots>, episodes - 1\<close> in this order, so the first completed episode is reported
  as episode 0. When \<open>play\<close> returns, its last output is the summary, and the episode count
  in it is the counter after the increments: the number of episode lines printed.
\<close>

theorem episode_numbering:
  assumes "play fuel W F s0 = (r, L, s, tr)"
  shows "map fst (episode_lines tr) = [0..<episodes L] \<and>
         (r = Finished \<longrightarrow>
            (\<exists>t. last tr = Summary (episodes L) t (mean_sps L)) \<and>
            episodes L = length (episode_lines tr))"
proof -
  have n: "map fst (episode_lines tr) = [0..<episodes L]"
    using assms
  proof (cases rule: playE)
    case (Running L0 s3 evs0 evs)
    from start_facts(1,7) [OF Running(1)] loop_numbers [OF Running(2)] Running(4)
    show ?thesis by (simp add: init_locals_def)
  next
    case (Raised L0 s3 evs0 evs e)
    from start_facts(1,7) [OF Raised(1)] loop_numbers [OF Raised(2)] Raised(4)
    show ?thesis by (simp add: init_locals_def)
  next
    case (Finished L0 s3 evs0 s2 evs evs')
    from start_facts(1,7) [OF Finished(1)] loop_numbers [OF Finished(2)] Finished(3,5)
    show ?thesis by (auto simp: init_locals_def finish_def)
  qed
  have "\<exists>t. last tr = Summary (episodes L) t (mean_sps L)" if "r = Finished"
    using assms that by (cases rule: playE) (auto simp: finish_def)
  moreover have "episodes L = length (episode_lines tr)"
    using arg_cong [OF n, of length] by simp
  ultimately show ?thesis using n by simp
qed

theorem episode_numbering_witness:
  "play 4 (scripted 1 [])
     (flags0\<lparr>raw_env := True, max_steps := 2, ngames := 2, no_render := True\<rparr>) (sys0 []) =
     (Finished,
      \<lparr>done_flag = True, steps = 0, episodes = 2, reward = 0, action = Some 98,
       mean_sps = 2, mean_reward = 0, total_start_time = 0, start_time = 4\<rparr>,
      \<lparr>env = 4, tty = [1, 2, 3], keys = [], draws = 4, ticks = 6\<rparr>,
      [EnvReset, PrintAction 106, Step 106 None False, PrintAction 76,
       Step 76 None False, EpisodeLine 0 2 2, EnvReset, PrintAction 13,
       Step 13 None False, PrintAction 98, Step 98 None False,
       EpisodeLine 1 2 2, EnvClose, Summary 2 5 2]) \<and>
   map fst (episode_lines
      [EnvReset, PrintAction 106, Step 106 None False, PrintAction 76,
       Step 76 None False, EpisodeLine 0 2 2, EnvReset, PrintAction 13,
       Step 13 None False, PrintAction 98, Step 98 None False,
       EpisodeLine 1 2 2, EnvClose, Summary 2 5 2]) = [0..<2]"
proof -
  have p: "play 4 (scripted 1 [])
     (flags0\<lparr>raw_env := True, max_steps := 2, ngames := 2, no_render := True\<rparr>) (sys0 []) =
     (Finished,
      \<lparr>done_flag = True, steps = 0, episodes = 2, reward = 0, action = Some 98,
       mean_sps = 2, mean_reward = 0, total_start_time = 0, start_time = 4\<rparr>,
      \<lparr>env = 4, tty = [1, 2, 3], keys = [], draws = 4, ticks = 6\<rparr>,
      [EnvReset, PrintAction 106, Step 106 None False, PrintAction 76,
       Step 76 None False, EpisodeLine 0 2 2, EnvReset, PrintAction 13,
       Step 13 None False, PrintAction 98, Step 98 None False,
       EpisodeLine 1 2 2, EnvClose, Summary 2 5 2])"
    by code_simp
  from episode_numbering [OF p] p show ?thesis by simp
qed

section \<open>C5: the session ends when the episode target is reached\<close>

text \<open>
  C5. Let the episode target be at least 1 and let nothing but the operator stop the
  session: the clock advances between two readings, \<open>env.step\<close> does not raise, every
  episode ends (the raw variant by the runner's own step cap, at most \<open>cap\<close> steps; the
  gym variant because the environment signals done after fewer than \<open>cap\<close> steps,
  measured by \<open>\<mu>\<close>), and in human mode the input holds no exit code and enough accepted
  keys. Then \<open>play\<close> returns (with any fuel of at least target times \<open>cap\<close> passes through
  the loop): the loop was left at line 172, when the incremented episode counter was equal
  to the target, so exactly that many episodes were completed and reported, numbered from
  0; the environment was closed and the summary printed last.
\<close>

theorem session_reaches_target:
  fixes \<mu> :: "'e \<Rightarrow> nat" and W :: "'e world"
  assumes target: "1 \<le> ngames F"
    and clock: "\<forall>i j. i < j \<longrightarrow> now W i < now W j"
    and raw: "raw_env F \<longrightarrow>
                (\<forall>e a. \<exists>e' d. step_raw W e a = Inr (e', d)) \<and> max_steps F \<le> int cap \<and> 0 < cap"
    and gym: "\<not> raw_env F \<longrightarrow>
                (\<forall>e a. \<exists>e' r d. step_gym W e a = Inr (e', r, d) \<and> (\<not> d \<longrightarrow> \<mu> e' < \<mu> e)) \<and>
                (\<forall>e. \<mu> e < cap)"
    and human: "mode F = Human \<longrightarrow>
                  C_c W \<notin> set (keys s0) \<and>
                  nat (ngames F) * cap \<le> length (filter (accepted W F) (keys s0))"
    and fuel: "nat (ngames F) * cap \<le> fuel"
  shows "\<exists>L s tr0 t.
           play fuel W F s0 =
             (Finished, L, s, tr0 @ [EnvClose, Summary (episodes L) t (mean_sps L)]) \<and>
           int (episodes L) = ngames F \<and> action L \<noteq> None \<and>
           map fst (episode_lines tr0) = [0..<nat (ngames F)]"
proof -
  define \<rho> where "\<rho> = (\<lambda>k e. if raw_env F then cap - Suc k else \<mu> e)"
  let ?N = "nat (ngames F)"
  have prog: "\<exists>L2 s2 evs2 L4.
        env_step W F L s a = Inr (L2, s2, evs2) \<and>
        after_step F (L2\<lparr>steps := steps L2 + 1\<rparr>) = Inr L4 \<and>
        (\<not> done_flag L4 \<longrightarrow> \<rho> (steps L4) (env s2) < \<rho> (steps L) (env s))"
    for L and s :: "'e sys" and a
  proof (cases "raw_env F")
    case True
    with raw obtain e' d where "step_raw W (env s) a = Inr (e', d)" by blast
    with True raw show ?thesis
      by (auto simp: env_step_def after_step_def \<rho>_def)
  next
    case False
    with gym obtain e' r d where "step_gym W (env s) a = Inr (e', r, d)"
      and "\<not> d \<longrightarrow> \<mu> e' < \<mu> e" if "e = env s" for e
      by (metis that)
    with False show ?thesis
      by (auto simp: env_step_def after_step_def truediv_def \<rho>_def)
  qed
  have cap: "\<rho> 0 e < cap" for e
    using raw gym by (auto simp: \<rho>_def)
  have clock': "now W i < now W j" if "i < j" for i j
    using clock that by blast
  obtain L0 s3 evs0 where st: "start W F s0 = (L0, s3, evs0)"
    by (cases "start W F s0") auto
  note sf = start_facts [OF st]
  have N: "0 < ?N" using target by simp
  then obtain k where k: "?N = Suc k" by (cases ?N) auto
  have phi: "Suc (\<rho> (steps L0) (env s3)) + (?N - Suc (episodes L0)) * cap \<le> ?N * cap"
    using cap [of "env s3"] sf(1) k by (simp add: init_locals_def)
  have "\<exists>L' s' evs. loop fuel W F L0 s3 = (Break, L', s', evs) \<and>
          int (episodes L') = ngames F \<and> action L' \<noteq> None"
  proof (rule loop_reaches_target [where \<rho> = \<rho> and cap = cap, OF prog cap clock'])
    show "episodes L0 < ?N" using N sf(1) by (simp add: init_locals_def)
    show "\<exists>j<ticks s3. start_time L0 = now W j"
      using sf(1,5) by (intro exI [of _ "ticks s0"]) (simp add: init_locals_def)
    show "Suc (\<rho> (steps L0) (env s3)) + (?N - Suc (episodes L0)) * cap \<le> fuel"
      using phi fuel by simp
    show "mode F = Human \<longrightarrow>
            C_c W \<notin> set (keys s3) \<and>
            Suc (\<rho> (steps L0) (env s3)) + (?N - Suc (episodes L0)) * cap
              \<le> length (filter (accepted W F) (keys s3))"
      using phi human sf(2) by auto
  qed
  then obtain L' s' evs where l: "loop fuel W F L0 s3 = (Break, L', s', evs)"
    and e: "int (episodes L') = ngames F" and a: "action L' \<noteq> None"
    by blast
  have "map fst (episode_lines evs) = [episodes L0..<episodes L']"
    using loop_numbers [OF l] by simp
  moreover have "episodes L' = ?N" using e by simp
  ultimately have n: "map fst (episode_lines (evs0 @ evs)) = [0..<?N]"
    using sf(1,7) by (simp add: init_locals_def)
  have "play fuel W F s0 =
          (Finished, L', s'\<lparr>ticks := Suc (ticks s')\<rparr>,
           (evs0 @ evs) @
           [EnvClose, Summary (episodes L') (now W (ticks s') - total_start_time L') (mean_sps L')])"
    by (simp add: play_def st l finish_def)
  with e a n show ?thesis by blast
qed

theorem session_reaches_target_witness:
  "1 \<le> ngames (flags0\<lparr>ngames := 2, no_render := True\<rparr>) \<and>
   (\<exists>L s tr0 t.
      play 8 (scripted 1 [(1, False), (3, True), (6, True)])
        (flags0\<lparr>ngames := 2, no_render := True\<rparr>) (sys0 []) =
        (Finished, L, s, tr0 @ [EnvClose, Summary (episodes L) t (mean_sps L)]) \<and>
      int (episodes L) = ngames (flags0\<lparr>ngames := 2, no_render := True\<rparr>) \<and>
      action L \<noteq> None \<and>
      map fst (episode_lines tr0) = [0..<nat (ngames (flags0\<lparr>ngames := 2, no_render := True\<rparr>))]) \<and>
   play 8 (scripted 1 [(1, False), (3, True), (6, True)])
     (flags0\<lparr>ngames := 2, no_render := True\<rparr>) (sys0 []) =
     (Finished,
      \<lparr>done_flag = True, steps = 0, episodes = 2, reward = 6, action = Some 2,
       mean_sps = 3 / 2, mean_reward = 0, total_start_time = 0, start_time = 4\<rparr>,
      \<lparr>env = 3, tty = [1, 2, 3], keys = [], draws = 3, ticks = 6\<rparr>,
      [EnvReset, Step 0 (Some 1) False, Step 1 (Some 3) True, FinalReward 3,
       EndStatus, MeanReward 2, EpisodeLine 0 2 2, EnvReset,
       Step 2 (Some 6) True, FinalReward 6, EndStatus, MeanReward 6,
       EpisodeLine 1 1 1, EnvClose, Summary 2 5 (3 / 2)])"
proof -
  let ?W = "scripted 1 [(1, False), (3, True), (6, True)]"
  let ?F = "flags0\<lparr>ngames := 2, no_render := True\<rparr>"
  have target: "1 \<le> ngames ?F" by (simp add: flags0_def)
  have clock: "\<forall>i j. i < j \<longrightarrow> now ?W i < now ?W j" by (simp add: scripted_def)
  have raw: "raw_env ?F \<longrightarrow>
               (\<forall>e a. \<exists>e' d. step_raw ?W e a = Inr (e', d)) \<and> max_steps ?F \<le> int 4 \<and> 0 < (4::nat)"
    by (simp add: flags0_def)
  have gym: "\<not> raw_env ?F \<longrightarrow>
               (\<forall>e a. \<exists>e' r d. step_gym ?W e a = Inr (e', r, d) \<and> (\<not> d \<longrightarrow> 3 - e' < 3 - e)) \<and>
               (\<forall>e. 3 - e < (4::nat))"
    by (auto simp: scripted_def less_Suc_eq)
  have human: "mode ?F = Human \<longrightarrow>
                 C_c ?W \<notin> set (keys (sys0 [])) \<and>
                 nat (ngames ?F) * 4 \<le> length (filter (accepted ?W ?F) (keys (sys0 [])))"
    by (simp add: flags0_def)
  have fuel: "nat (ngames ?F) * 4 \<le> 8" by (simp add: flags0_def)
  have p: "play 8 ?W ?F (sys0 []) =
     (Finished,
      \<lparr>done_flag = True, steps = 0, episodes = 2, reward = 6, action = Some 2,
       mean_sps = 3 / 2, mean_reward = 0, total_start_time = 0, start_time = 4\<rparr>,
      \<lparr>env = 3, tty = [1, 2, 3], keys = [], draws = 3, ticks = 6\<rparr>,
      [EnvReset, Step 0 (Some 1) False, Step 1 (Some 3) True, FinalReward 3,
       EndStatus, MeanReward 2, EpisodeLine 0 2 2, EnvReset,
       Step 2 (Some 6) True, FinalReward 6, EndStatus, MeanReward 6,
       EpisodeLine 1 1 1, EnvClose, Summary 2 5 (3 / 2)])"
    by code_simp
  from session_reaches_target [where \<mu> = "\<lambda>e. 3 - e", OF target clock raw gym human fuel]
    target p
  show ?thesis by blast
qed

section \<open>C6: the exit code on the first input request\<close>

text \<open>
  C6. In human mode, when the first byte read is the exit code \<open>nethack.C("c")\<close>, \<open>play\<close>
  returns normally (with any fuel for at least one pass through the loop): no episode
  has been completed and no episode line printed, \<open>env.step\<close> has not been called, the
  exit message has been printed, and the terminal has the attributes it had before.
\<close>

theorem exit_on_first_request:
  assumes "mode F = Human" and "keys s = C_c W # ks"
  shows "\<exists>L s' tr. play (Suc n) W F s = (Finished, L, s', tr) \<and>
           episodes L = 0 \<and> steps L = 0 \<and> action L = None \<and>
           episode_lines tr = [] \<and> step_events tr = [] \<and>
           ExitMsg (C_c W) \<in> set tr \<and> tty s' = tty s \<and> keys s' = ks"
proof -
  obtain L0 s3 evs0 where st: "start W F s = (L0, s3, evs0)"
    by (cases "start W F s") auto
  note sf = start_facts [OF st]
  have k3: "keys s3 = C_c W # ks" using sf(2) assms(2) by simp
  have g: "get_action W F s3 = (Inr None, s3\<lparr>keys := ks\<rparr>, [ExitMsg (C_c W)])"
    using assms(1) k3 by (simp add: get_action_def get_human_Cons)
  have t: "turn W F L0 s3 = (Break, L0\<lparr>action := None\<rparr>, s3\<lparr>keys := ks\<rparr>, [ExitMsg (C_c W)])"
    by (simp add: turn_def g act_def)
  have l: "loop (Suc n) W F L0 s3 =
             (Break, L0\<lparr>action := None\<rparr>, s3\<lparr>keys := ks\<rparr>, render F L0 @ [ExitMsg (C_c W)])"
    by (simp add: t)
  have "play (Suc n) W F s =
          (Finished, L0\<lparr>action := None\<rparr>, fst (finish W (L0\<lparr>action := None\<rparr>) (s3\<lparr>keys := ks\<rparr>)),
           evs0 @ (render F L0 @ [ExitMsg (C_c W)]) @
           snd (finish W (L0\<lparr>action := None\<rparr>) (s3\<lparr>keys := ks\<rparr>)))"
    by (simp add: play_def st l del: loop.simps split: prod.splits)
  then show ?thesis
    using sf by (simp add: finish_def init_locals_def)
qed

theorem exit_on_first_request_witness:
  "mode (flags0\<lparr>mode := Human\<rparr>) = Human \<and>
   keys (sys0 [3, 107]) = C_c (scripted 1 []) # [107] \<and>
   play 1 (scripted 1 []) (flags0\<lparr>mode := Human\<rparr>) (sys0 [3, 107]) =
     (Finished, init_locals 0,
      \<lparr>env = 0, tty = [1, 2, 3], keys = [107], draws = 0, ticks = 2\<rparr>,
      [EnvReset, Frame None, ExitMsg 3, EnvClose, Summary 0 1 0])"
proof -
  have h1: "mode (flags0\<lparr>mode := Human\<rparr>) = Human" by (simp add: flags0_def)
  have h2: "keys (sys0 [3, 107]) = C_c (scripted 1 []) # [107]"
    by (simp add: sys0_def scripted_def)
  have r: "play 1 (scripted 1 []) (flags0\<lparr>mode := Human\<rparr>) (sys0 [3, 107]) =
     (Finished, init_locals 0,
      \<lparr>env = 0, tty = [1, 2, 3], keys = [107], draws = 0, ticks = 2\<rparr>,
      [EnvReset, Frame None, ExitMsg 3, EnvClose, Summary 0 1 0])"
    by code_simp
  from exit_on_first_request [OF h1 h2, of 0] h1 h2 r show ?thesis by simp
qed

section \<open>C7: a rejected key costs one prompt and nothing else\<close>

text \<open>
  C7. In human mode a byte fails to resolve exactly when \<open>env._actions.index(ch)\<close>
  raises ValueError: the environment is not the raw one, and the byte is neither the exit
  code nor in \<open>env._actions\<close>. Then \<open>get_action\<close> prints one retry prompt naming the
  byte (followed by the cursor movement unless frames are printed separately) and reads
  again: its result is that of \<open>get_action\<close> on the remaining input, with the prompt put
  in front of the output. The same holds for the whole pass through the loop of \<open>play\<close>:
  control, local variables (step count, running means, episode count), environment and
  calls of \<open>env.step\<close> are those of the pass that never saw the rejected byte.
\<close>

theorem rejected_key_only_prompts:
  assumes "mode F = Human" and "\<not> raw_env F"
    and "keys s = ch # ks" and "ch \<noteq> C_c W" and "ch \<notin> set (env_actions W)"
  shows "get_action W F s =
           (case get_action W F (s\<lparr>keys := ks\<rparr>) of
              (r, s', evs) \<Rightarrow> (r, s', retry F ch @ evs)) \<and>
         turn W F L s =
           (case turn W F L (s\<lparr>keys := ks\<rparr>) of
              (c, L', s', evs) \<Rightarrow> (c, L', s', retry F ch @ evs)) \<and>
         filter (\<lambda>e. e \<noteq> CursorUp2) (retry F ch) = [RetryMsg ch] \<and>
         step_events (retry F ch) = []"
proof -
  have idx: "index_of (env_actions W) ch = None"
    using assms(5) by (simp add: index_of_None)
  have g: "get_action W F s =
           (case get_action W F (s\<lparr>keys := ks\<rparr>) of
              (r, s', evs) \<Rightarrow> (r, s', retry F ch @ evs))"
    using assms(1-4) idx by (simp add: get_action_def get_human_Cons)
  obtain r s' evs where g': "get_action W F (s\<lparr>keys := ks\<rparr>) = (r, s', evs)"
    by (cases "get_action W F (s\<lparr>keys := ks\<rparr>)") auto
  have t: "turn W F L s =
           (case turn W F L (s\<lparr>keys := ks\<rparr>) of
              (c, L', s', evs) \<Rightarrow> (c, L', s', retry F ch @ evs))"
    by (cases r) (simp_all add: turn_def g g' split: prod.splits)
  show ?thesis using g t by (simp add: retry_def)
qed

theorem rejected_key_only_prompts_witness:
  "mode (flags0\<lparr>mode := Human\<rparr>) = Human \<and> \<not> raw_env (flags0\<lparr>mode := Human\<rparr>) \<and>
   keys (sys0 [122, 107]) = 122 # [107] \<and> 122 \<noteq> C_c (scripted 1 [(1, False)]) \<and>
   122 \<notin> set (env_actions (scripted 1 [(1, False)])) \<and>
   turn (scripted 1 [(1, False)]) (flags0\<lparr>mode := Human\<rparr>) (init_locals 0) (sys0 [122, 107]) =
     (case turn (scripted 1 [(1, False)]) (flags0\<lparr>mode := Human\<rparr>) (init_locals 0)
             ((sys0 [122, 107])\<lparr>keys := [107]\<rparr>) of
        (c, L', s', evs) \<Rightarrow> (c, L', s', retry (flags0\<lparr>mode := Human\<rparr>) 122 @ evs)) \<and>
   turn (scripted 1 [(1, False)]) (flags0\<lparr>mode := Human\<rparr>) (init_locals 0) (sys0 [122, 107]) =
     (Continue,
      \<lparr>done_flag = False, steps = 1, episodes = 0, reward = 1, action = Some 1,
       mean_sps = 0, mean_reward = 1, total_start_time = 0, start_time = 0\<rparr>,
      \<lparr>env = 1, tty = [1, 2, 3], keys = [], draws = 0, ticks = 0\<rparr>,
      [RetryMsg 122, CursorUp2, Step 1 (Some 1) False])"
proof -
  let ?W = "scripted 1 [(1, False)]" and ?F = "flags0\<lparr>mode := Human\<rparr>"
  have h1: "mode ?F = Human" and h2: "\<not> raw_env ?F"
    by (simp_all add: flags0_def)
  have h3: "keys (sys0 [122, 107]) = 122 # [107]" by (simp add: sys0_def)
  have h4: "122 \<noteq> C_c ?W" and h5: "122 \<notin> set (env_actions ?W)"
    by (simp_all add: scripted_def)
  have r: "turn ?W ?F (init_locals 0) (sys0 [122, 107]) =
     (Continue,
      \<lparr>done_flag = False, steps = 1, episodes = 0, reward = 1, action = Some 1,
       mean_sps = 0, mean_reward = 1, total_start_time = 0, start_time = 0\<rparr>,
      \<lparr>env = 1, tty = [1, 2, 3], keys = [], draws = 0, ticks = 0\<rparr>,
      [RetryMsg 122, CursorUp2, Step 1 (Some 1) False])"
    by code_simp
  from rejected_key_only_prompts [OF h1 h2 h3 h4 h5, of "init_locals 0"] h1 h2 h3 h4 h5 r
  show ?thesis by blast
qed

section \<open>C8: what get_action returns\<close>

text \<open>
  C8 says that every action returned is a member of the environment's action space. For
  the raw environment the action space of the script is the table \<open>_ACTIONS\<close> that random
  mode draws from; in human mode the byte read is passed on unchecked (\<open>action = ch\<close>,
  line 58). With the key codes of NLE the byte 122 (the letter z) is returned although it
  is not in the table.
\<close>

theorem raw_human_action_unchecked:
  "get_action (scripted 1 []) (flags0\<lparr>mode := Human, raw_env := True\<rparr>) (sys0 [122]) =
     (Inr (Some 122), sys0 [], []) \<and>
   122 \<notin> set (ACTIONS (scripted 1 []))"
  by code_simp

lemma get_human_result:
  "get_human W F s = (Inr ao, s', evs) \<Longrightarrow>
   (case ao of
      None \<Rightarrow> C_c W \<in> set (keys s)
    | Some a \<Rightarrow>
        if raw_env F then keys s = a # keys s' \<and> a \<noteq> C_c W
        else a < length (env_actions W) \<and> env_actions W ! a \<in> set (keys s) \<and>
             env_actions W ! a \<noteq> C_c W)"
proof (induction W F s arbitrary: ao s' evs rule: get_human.induct)
  case (1 W F s)
  show ?case
  proof (cases "keys s")
    case Nil
    with "1.prems" show ?thesis by (simp add: get_human_eof)
  next
    case (Cons k ks)
    show ?thesis
    proof (cases "k \<noteq> C_c W \<and> \<not> raw_env F \<and> index_of (env_actions W) k = None")
      case True
      then have rd: "no_echo W os_read_ord s = (Inr k, s\<lparr>keys := ks\<rparr>)"
        using Cons by (simp add: read_key)
      obtain r2 s2 evs2 where g: "get_human W F (s\<lparr>keys := ks\<rparr>) = (r2, s2, evs2)"
        by (cases "get_human W F (s\<lparr>keys := ks\<rparr>)") auto
      from "1.prems" True Cons g have r2: "r2 = Inr ao" and s2: "s' = s2"
        by (simp_all add: get_human_Cons)
      from "1.IH" [OF rd [symmetric] refl _ _ _ g [unfolded r2]] True
      show ?thesis using Cons True by (auto split: option.splits)
    next
      case False
      with "1.prems" Cons show ?thesis
        by (auto simp: get_human_Cons split: if_splits option.splits dest: index_of_Some)
    qed
  qed
qed

text \<open>
  C8, amended. When \<open>get_action\<close> returns an action \<open>a\<close>:
  in random mode \<open>a\<close> is what \<open>env.action_space.sample()\<close> returned (gym environment) or
  an element of \<open>_ACTIONS\<close> (raw environment); in human mode with a gym environment \<open>a\<close> is
  an index into \<open>env._actions\<close> whose entry is a byte that was read and is not the exit
  code; in human mode with the raw environment \<open>a\<close> is the first byte read, not the exit
  code, and otherwise unchecked. When it returns \<open>None\<close>, the mode is human and the exit
  code was read.
\<close>

theorem get_action_result:
  assumes "get_action W F s = (Inr ao, s', evs)"
  shows "case ao of
           None \<Rightarrow> mode F = Human \<and> C_c W \<in> set (keys s)
         | Some a \<Rightarrow>
             (case mode F of
                Random \<Rightarrow>
                  if raw_env F then a \<in> set (ACTIONS W)
                  else a = action_space_sample W (draws s)
              | Human \<Rightarrow>
                  if raw_env F then keys s = a # keys s' \<and> a \<noteq> C_c W
                  else a < length (env_actions W) \<and> env_actions W ! a \<in> set (keys s) \<and>
                       env_actions W ! a \<noteq> C_c W)"
proof (cases "mode F")
  case Human
  with assms have "get_human W F s = (Inr ao, s', evs)" by (simp add: get_action_def)
  from get_human_result [OF this] Human show ?thesis by (simp split: option.splits)
next
  case Random
  have "ACTIONS W ! (rand W (draws s) mod length (ACTIONS W)) \<in> set (ACTIONS W)"
    by (rule nth_mem) (simp add: ACTIONS_def)
  with assms Random show ?thesis
    by (auto simp: get_action_def Let_def split: if_splits)
qed

theorem get_action_result_witness:
  "get_action (scripted 1 []) (flags0\<lparr>mode := Human\<rparr>) (sys0 [122, 108, 3]) =
     (Inr (Some 2), sys0 [3], [RetryMsg 122, CursorUp2]) \<and>
   (2::nat) < length (env_actions (scripted 1 [])) \<and>
   env_actions (scripted 1 []) ! 2 \<in> set (keys (sys0 [122, 108, 3])) \<and>
   env_actions (scripted 1 []) ! 2 \<noteq> C_c (scripted 1 [])"
proof -
  have g: "get_action (scripted 1 []) (flags0\<lparr>mode := Human\<rparr>) (sys0 [122, 108, 3]) =
     (Inr (Some 2), sys0 [3], [RetryMsg 122, CursorUp2])"
    by code_simp
  have m: "mode (flags0\<lparr>mode := Human\<rparr>) = Human" "\<not> raw_env (flags0\<lparr>mode := Human\<rparr>)"
    by (simp_all add: flags0_def)
  from get_action_result [OF g] m g show ?thesis by simp
qed

section \<open>C9: the terminal attributes are restored on every exit path\<close>

text \<open>
  C9. \<open>no_echo\<close> restores the attributes that the terminal had when the scope was
  entered, whatever the body of the \<open>with\<close> statement returns or raises and whatever it
  did to the terminal. As the scope encloses only the read of one byte, the attributes
  after \<open>play\<close> are those before it for every outcome: the episode target reached, the
  operator's exit code, an exception raised by the read, by \<open>env.step\<close> or by a division,
  and also at every moment of a session that is still running.
\<close>

theorem terminal_restored:
  "tty (snd (no_echo W body s)) = tty s \<and>
   tty (fst (snd (snd (play fuel W F s0)))) = tty s0"
proof
  show "tty (snd (no_echo W body s)) = tty s"
    by (simp add: no_echo_def Let_def split: prod.splits)
next
  obtain r L s' tr where p: "play fuel W F s0 = (r, L, s', tr)"
    by (cases "play fuel W F s0") auto
  have "tty s' = tty s0"
    using p by (cases rule: playE) (auto simp: finish_def dest!: start_tty loop_tty)
  with p show "tty (fst (snd (snd (play fuel W F s0)))) = tty s0" by simp
qed

theorem terminal_restored_witness:
  "fst (play 3 (scripted 1 [(1, True)]) (flags0\<lparr>mode := Human\<rparr>) (sys0 [107])) = Finished \<and>
   tty (fst (snd (snd (play 3 (scripted 1 [(1, True)]) (flags0\<lparr>mode := Human\<rparr>)
      (sys0 [107]))))) = tty (sys0 [107]) \<and>
   fst (play 3 (scripted 1 [(1, True)]) (flags0\<lparr>mode := Human\<rparr>) (sys0 [122, 3])) = Finished \<and>
   action (fst (snd (play 3 (scripted 1 [(1, True)]) (flags0\<lparr>mode := Human\<rparr>)
      (sys0 [122, 3])))) = None \<and>
   tty (fst (snd (snd (play 3 (scripted 1 [(1, True)]) (flags0\<lparr>mode := Human\<rparr>)
      (sys0 [122, 3]))))) = tty (sys0 [122, 3]) \<and>
   fst (play 3 (scripted 1 [(1, True)]) (flags0\<lparr>mode := Human\<rparr>) (sys0 [122])) =
     Raised TypeError \<and>
   tty (fst (snd (snd (play 3 (scripted 1 [(1, True)]) (flags0\<lparr>mode := Human\<rparr>)
      (sys0 [122]))))) = tty (sys0 [122])"
proof -
  let ?W = "scripted 1 [(1, True)]" and ?F = "flags0\<lparr>mode := Human\<rparr>"
  have a: "fst (play 3 ?W ?F (sys0 [107])) = Finished"
    and b: "fst (play 3 ?W ?F (sys0 [122, 3])) = Finished"
    and b': "action (fst (snd (play 3 ?W ?F (sys0 [122, 3])))) = None"
    and c: "fst (play 3 ?W ?F (sys0 [122])) = Raised TypeError"
    by code_simp+
  from terminal_restored [of ?W os_read_ord "sys0 []" 3 ?F "sys0 [107]"]
    terminal_restored [of ?W os_read_ord "sys0 []" 3 ?F "sys0 [122, 3]"]
    terminal_restored [of ?W os_read_ord "sys0 []" 3 ?F "sys0 [122]"]
    a b b' c
  show ?thesis by blast
qed

end
